theory Spec2Isabelle
  imports Complex_Main "HOL-Library.AList"
begin

section \<open>JavaScript strings and numbers\<close>

text \<open>
  Strings are lists of characters; a character stands for a UTF-16 code unit
  below 256. The command language of the console, the responses of the
  simulator and the host names of the scanner are ASCII.
  A channel number, a bus number, a host suffix or a preset number is a
  natural number, and the template literal \<^verbatim>\<open>`${n}`\<close> prints it in decimal
  without leading zeros (what JavaScript does for every integer below
  \<open>10^21\<close>).
\<close>

definition digit_char :: "nat \<Rightarrow> char" where
  "digit_char d = ''0123456789'' ! d"

function show_nat :: "nat \<Rightarrow> string" where
  "show_nat n = (if n < 10 then [digit_char n] else show_nat (n div 10) @ [digit_char (n mod 10)])"
  by pat_completeness auto
termination
  by (relation "measure id") auto

declare show_nat.simps [simp del]

text \<open>
  A JavaScript number is a real number or \<^verbatim>\<open>NaN\<close>. The rounding of IEEE
  doubles is not modelled: \<^verbatim>\<open>Math.max\<close>, \<^verbatim>\<open>Math.min\<close>, comparison and the
  decimal texts of at most one fractional digit that occur here behave on
  doubles as on reals, up to the rounding of the last bit. The infinities are
  left out.
\<close>

datatype number = NaN | Num real

text \<open>
  Character classes. \<open>isspace\<close> is the class \<^verbatim>\<open>\s\<close> of regular expressions, which
  is also what \<^verbatim>\<open>trim()\<close> strips: tab, line feed, vertical tab, form feed,
  carriage return, space and the no-break space. \<open>isnumch\<close> is the class
  \<^verbatim>\<open>[-\d.]\<close>. \<open>toUpperCase\<close> is given on ASCII letters; every other character
  of a command is a digit, a space or one of \<^verbatim>\<open>= - . :\<close> and stays as it is.
\<close>

definition a_tilde :: char where
  "a_tilde = Char True True False False False True True True"

definition isdigit :: "char \<Rightarrow> bool" where
  "isdigit c = (c \<in> set ''0123456789'')"

definition TAB :: char where
  "TAB = Char True False False True False False False False"

definition LF :: char where
  "LF = Char False True False True False False False False"

definition VT :: char where
  "VT = Char True True False True False False False False"

definition FF :: char where
  "FF = Char False False True True False False False False"

definition CR :: char where
  "CR = Char True False True True False False False False"

definition NBSP :: char where
  "NBSP = Char False False False False False True False True"

definition isspace :: "char \<Rightarrow> bool" where
  "isspace c = (c \<in> set [TAB, LF, VT, FF, CR, CHR '' '', NBSP])"

definition isnumch :: "char \<Rightarrow> bool" where
  "isnumch c = (c = CHR ''-'' \<or> isdigit c \<or> c = CHR ''.'')"

definition trim :: "string \<Rightarrow> string" where
  "trim s = rev (dropWhile isspace (rev (dropWhile isspace s)))"

fun split :: "char \<Rightarrow> string \<Rightarrow> string list" where
  "split sep [] = [[]]"
| "split sep (c # s) =
     (if c = sep then [] # split sep s
      else (case split sep s of [] \<Rightarrow> [[c]] | l # ls \<Rightarrow> (c # l) # ls))"

definition toUpperChar :: "char \<Rightarrow> char" where
  "toUpperChar c =
     (case map_of (zip ''abcdefghijklmnopqrstuvwxyz'' ''ABCDEFGHIJKLMNOPQRSTUVWXYZ'') c of
        None \<Rightarrow> c | Some u \<Rightarrow> u)"

definition toUpperCase :: "string \<Rightarrow> string" where
  "toUpperCase s = map toUpperChar s"

text \<open>
  \<^verbatim>\<open>parseInt\<close> and \<^verbatim>\<open>parseFloat\<close> are only ever applied to a captured group
  \<^verbatim>\<open>(\d+)\<close> or \<^verbatim>\<open>([-\d.]+)\<close>. On a string of digits \<^verbatim>\<open>parseInt\<close> is the decimal
  value. On a string over \<^verbatim>\<open>- 0..9 .\<close> \<^verbatim>\<open>parseFloat\<close> reads the longest prefix of
  the form sign, digits, optional dot and digits (or sign, dot, digits), and
  is \<^verbatim>\<open>NaN\<close> when there is no digit where the number should start: the
  exponent, \<^verbatim>\<open>Infinity\<close>, a plus sign and leading white space cannot occur.
\<close>

definition digit_val :: "char \<Rightarrow> nat" where
  "digit_val c = (case map_of (zip ''0123456789'' [0, 1, 2, 3, 4, 5, 6, 7, 8, 9]) c of None \<Rightarrow> 0 | Some d \<Rightarrow> d)"

definition parse_digits :: "string \<Rightarrow> nat" where
  "parse_digits ds = foldl (\<lambda>n c. 10 * n + digit_val c) 0 ds"

definition parseFloat :: "string \<Rightarrow> number" where
  "parseFloat s =
     (let neg = (s \<noteq> [] \<and> hd s = CHR ''-'');
          s1 = (if neg then tl s else s);
          ip = takeWhile isdigit s1;
          r = dropWhile isdigit s1;
          fp = (if r \<noteq> [] \<and> hd r = CHR ''.'' then takeWhile isdigit (tl r) else [])
      in if ip = [] \<and> fp = [] then NaN
         else let v = real (parse_digits ip) + real (parse_digits fp) / 10 ^ length fp
              in Num (if neg then - v else v))"

text \<open>
  \<^verbatim>\<open>x.toFixed(1)\<close>: the sign, then the integer \<open>n\<close> nearest to \<open>10 |x|\<close> (the larger
  one on a tie) printed with a dot before its last digit. JavaScript switches
  to exponent notation from \<open>10^21\<close> on; every number printed here is between
  \<open>-60\<close> and \<open>10\<close>.
\<close>

definition toFixed1 :: "real \<Rightarrow> string" where
  "toFixed1 x =
     (let s = (if x < 0 then ''-'' else '''');
          n = nat \<lfloor>\<bar>x\<bar> * 10 + 1 / 2\<rfloor>
      in s @ show_nat (n div 10) @ ''.'' @ [digit_char (n mod 10)])"

subsection \<open>Regular expressions\<close>

text \<open>
  The patterns of the source are sequences of literals, alternatives of
  literals, \<^verbatim>\<open>c+\<close> and \<^verbatim>\<open>c*\<close> for a character class \<open>c\<close>, and \<^verbatim>\<open>$\<close>; an item is
  paired with \<open>True\<close> when it is a capturing group. The matcher is the
  backtracking one of JavaScript: every item lists the ways it can match at
  the front of the input in the order of preference (alternatives left to
  right, repetitions longest first), \<open>matchSeq\<close> lists the captured groups of
  all matches of a sequence in that order, \<open>matchAt\<close> takes the first, and
  \<open>match\<close> tries the start positions from left to right as
  \<^verbatim>\<open>String.prototype.match\<close> does. The flag \<open>ci\<close> is the \<^verbatim>\<open>i\<close> flag.
\<close>

datatype cclass = Digit | Space | NumCh

fun in_class :: "cclass \<Rightarrow> char \<Rightarrow> bool" where
  "in_class Digit c = isdigit c"
| "in_class Space c = isspace c"
| "in_class NumCh c = isnumch c"

datatype atom = Lit string | Alt "string list" | Plus cclass | Star cclass | Eos

fun lit :: "bool \<Rightarrow> string \<Rightarrow> string \<Rightarrow> (string \<times> string) list" where
  "lit ci [] s = [([], s)]"
| "lit ci (c # l) [] = []"
| "lit ci (c # l) (d # s) =
     (if (if ci then toUpperChar c = toUpperChar d else c = d)
      then map (\<lambda>(m, r). (d # m, r)) (lit ci l s) else [])"

fun splits :: "(char \<Rightarrow> bool) \<Rightarrow> string \<Rightarrow> (string \<times> string) list" where
  "splits P [] = [([], [])]"
| "splits P (c # s) =
     (if P c then map (\<lambda>(m, r). (c # m, r)) (splits P s) else []) @ [([], c # s)]"

fun matchAtom :: "bool \<Rightarrow> atom \<Rightarrow> string \<Rightarrow> (string \<times> string) list" where
  "matchAtom ci (Lit l) s = lit ci l s"
| "matchAtom ci (Alt ls) s = concat (map (\<lambda>l. lit ci l s) ls)"
| "matchAtom ci (Star k) s = splits (in_class k) s"
| "matchAtom ci (Plus k) s = butlast (splits (in_class k) s)"
| "matchAtom ci Eos s = (if s = [] then [([], [])] else [])"

fun matchSeq :: "bool \<Rightarrow> (bool \<times> atom) list \<Rightarrow> string \<Rightarrow> string list list" where
  "matchSeq ci [] s = [[]]"
| "matchSeq ci ((cap, a) # p) s =
     concat (map (\<lambda>(m, r). map (\<lambda>caps. if cap then m # caps else caps) (matchSeq ci p r))
                 (matchAtom ci a s))"

definition matchAt :: "bool \<Rightarrow> (bool \<times> atom) list \<Rightarrow> string \<Rightarrow> string list option" where
  "matchAt ci p s = (case matchSeq ci p s of [] \<Rightarrow> None | caps # _ \<Rightarrow> Some caps)"

fun match :: "bool \<Rightarrow> (bool \<times> atom) list \<Rightarrow> string \<Rightarrow> string list option" where
  "match ci p [] = matchAt ci p []"
| "match ci p (c # s) =
     (case matchAt ci p (c # s) of None \<Rightarrow> match ci p s | Some caps \<Rightarrow> Some caps)"

text \<open>
  The groups of a match: \<open>groups1\<close> to \<open>groups4\<close> read the captured texts of a
  pattern with that many groups, \<open>None\<close> standing for \<^verbatim>\<open>null\<close> (no match).
\<close>

fun groups1 :: "string list option \<Rightarrow> string option" where
  "groups1 (Some (a # _)) = Some a"
| "groups1 _ = None"

fun groups2 :: "string list option \<Rightarrow> (string \<times> string) option" where
  "groups2 (Some (a # b # _)) = Some (a, b)"
| "groups2 _ = None"

fun groups3 :: "string list option \<Rightarrow> (string \<times> string \<times> string) option" where
  "groups3 (Some (a # b # c # _)) = Some (a, b, c)"
| "groups3 _ = None"

fun groups4 :: "string list option \<Rightarrow> (string \<times> string \<times> string \<times> string) option" where
  "groups4 (Some (a # b # c # d # _)) = Some (a, b, c, d)"
| "groups4 _ = None"

section \<open>network-scanner.ts\<close>

text \<open>
  \<^verbatim>\<open>Array.from({ length: 254 }, (_, i) => `${subnet}.${i + 1}`)\<close>:
  the callback runs for the indices \<open>0, ..., 253\<close> in order.
\<close>

definition getSubnetHosts :: "string \<Rightarrow> string list" where
  "getSubnetHosts subnet = map (\<lambda>i. subnet @ ''.'' @ show_nat (i + 1)) [0..<254]"

section \<open>reconnect-watchdog.ts\<close>

text \<open>
  The watchdog is a class with private fields, driven by the event loop. The
  model is a record of the fields plus the part of the runtime the class talks
  to: the timeouts that \<^verbatim>\<open>setTimeout\<close> has scheduled and that have neither fired
  nor been cleared, the counter that names the next timeout handle, the events
  given to \<^verbatim>\<open>emit\<close>, and the number of \<^verbatim>\<open>_attempt\<close> calls suspended at
  \<^verbatim>\<open>await this.reconnectFn()\<close>. Times are milliseconds; every operation that reads
  the clock takes the reading as its argument \<open>now\<close>. The injected functions are
  modelled by whether they are set; what \<^verbatim>\<open>isConnectedFn()\<close> returns and how
  \<^verbatim>\<open>reconnectFn()\<close> settles are inputs of the step function.
\<close>

datatype WatchdogState = Idle | Watching | Connecting | Connected | Stopped

datatype wd_event =
    StateChange WatchdogState WatchdogState
  | Attempt nat
  | Reconnected nat
  | Failed nat string

definition BASE_INTERVAL_MS :: nat where
  "BASE_INTERVAL_MS = 30000"

definition MAX_INTERVAL_MS :: nat where
  "MAX_INTERVAL_MS = 300000"

definition BACKOFF_MULTIPLIER :: nat where
  "BACKOFF_MULTIPLIER = 2"

record watchdog =
  state :: WatchdogState
  attempts :: nat
  lastAttemptAt :: "nat option"
  nextAttemptAt :: "nat option"
  lastError :: "string option"
  currentIntervalMs :: nat
  timer :: "nat option"
  stopped :: bool
  reconnectFn :: bool
  isConnectedFn :: bool
  emitted :: "wd_event list"
  timeouts :: "(nat \<times> nat) list"
  nextHandle :: nat
  inflight :: nat

text \<open>The field initialisers of the class; the runtime part starts empty.\<close>

definition new_watchdog :: watchdog where
  "new_watchdog = \<lparr> state = Idle, attempts = 0, lastAttemptAt = None, nextAttemptAt = None,
     lastError = None, currentIntervalMs = BASE_INTERVAL_MS, timer = None, stopped = False,
     reconnectFn = False, isConnectedFn = False,
     emitted = [], timeouts = [], nextHandle = 0, inflight = 0 \<rparr>"

text \<open>\<^verbatim>\<open>clearTimeout(h)\<close>: the timeout with handle \<open>h\<close>, if still scheduled, is dropped.\<close>

definition clearTimeout :: "nat \<Rightarrow> watchdog \<Rightarrow> watchdog" where
  "clearTimeout h w = w\<lparr>timeouts := filter (\<lambda>t. fst t \<noteq> h) (timeouts w)\<rparr>"

definition emit :: "wd_event \<Rightarrow> watchdog \<Rightarrow> watchdog" where
  "emit e w = w\<lparr>emitted := emitted w @ [e]\<rparr>"

definition configure :: "watchdog \<Rightarrow> watchdog" where
  "configure w = w\<lparr>reconnectFn := True, isConnectedFn := True\<rparr>"

definition setState :: "WatchdogState \<Rightarrow> watchdog \<Rightarrow> watchdog" where
  "setState newState w =
     (let prev = state w;
          w1 = w\<lparr>state := newState\<rparr>
      in if prev \<noteq> newState then emit (StateChange newState prev) w1 else w1)"

text \<open>
  \<^verbatim>\<open>_scheduleNext\<close>: \<^verbatim>\<open>this.timer = setTimeout(..., delay)\<close> schedules a new timeout
  and overwrites the field; a timeout the field named before stays scheduled.
\<close>

definition scheduleNext :: "nat \<Rightarrow> watchdog \<Rightarrow> watchdog" where
  "scheduleNext now w =
     (if stopped w then w
      else let delay = currentIntervalMs w;
               h = nextHandle w
           in w\<lparr>nextAttemptAt := Some (now + delay),
                timer := Some h,
                timeouts := timeouts w @ [(h, delay)],
                nextHandle := h + 1\<rparr>)"

definition start :: "nat \<Rightarrow> watchdog \<Rightarrow> watchdog" where
  "start now w =
     (if state w = Watching \<or> state w = Connecting then w
      else if \<not> reconnectFn w \<or> \<not> isConnectedFn w then w
      else scheduleNext now
             (setState Watching (w\<lparr>stopped := False, currentIntervalMs := BASE_INTERVAL_MS\<rparr>)))"

definition clearTimer :: "watchdog \<Rightarrow> watchdog" where
  "clearTimer w = (case timer w of None \<Rightarrow> w | Some h \<Rightarrow> (clearTimeout h w)\<lparr>timer := None\<rparr>)"

definition stop :: "watchdog \<Rightarrow> watchdog" where
  "stop w = setState Stopped ((clearTimer (w\<lparr>stopped := True\<rparr>))\<lparr>nextAttemptAt := None\<rparr>)"

definition onConnected :: "watchdog \<Rightarrow> watchdog" where
  "onConnected w =
     setState Connected
       ((clearTimer w)\<lparr>attempts := 0, currentIntervalMs := BASE_INTERVAL_MS,
                       nextAttemptAt := None, lastError := None\<rparr>)"

definition msg_conexao_perdida :: string where
  "msg_conexao_perdida = ''Conex'' @ [a_tilde] @ ''o perdida''"

definition msg_falha_na_reconexao :: string where
  "msg_falha_na_reconexao = ''Falha na reconex'' @ [a_tilde] @ ''o''"

definition onDisconnected :: "nat \<Rightarrow> string option \<Rightarrow> watchdog \<Rightarrow> watchdog" where
  "onDisconnected now reason w =
     (if stopped w then w
      else if state w = Connected \<or> state w = Idle
      then scheduleNext now
             (setState Watching
               (w\<lparr>lastError := Some (case reason of None \<Rightarrow> msg_conexao_perdida | Some r \<Rightarrow> r)\<rparr>))
      else w)"

definition getStatus ::
  "watchdog \<Rightarrow> WatchdogState \<times> nat \<times> nat option \<times> nat option \<times> string option \<times> nat" where
  "getStatus w =
     (state w, attempts w, lastAttemptAt w, nextAttemptAt w, lastError w, currentIntervalMs w)"

definition onAttemptFailed :: "nat \<Rightarrow> string \<Rightarrow> watchdog \<Rightarrow> watchdog" where
  "onAttemptFailed now reason w =
     (if stopped w then w
      else let w1 = w\<lparr>lastError := Some reason\<rparr>;
               w2 = emit (Failed (attempts w1) reason) w1;
               w3 = w2\<lparr>currentIntervalMs :=
                         min (currentIntervalMs w2 * BACKOFF_MULTIPLIER) MAX_INTERVAL_MS\<rparr>
           in scheduleNext now (setState Watching w3))"

text \<open>
  \<^verbatim>\<open>_attempt\<close> is an async function. \<open>attempt\<close> is its synchronous part, up to the
  \<^verbatim>\<open>await\<close>; \<open>isConn\<close> is what \<^verbatim>\<open>isConnectedFn()\<close> returns. \<open>attemptSettled\<close> is
  the rest, run when the promise of \<^verbatim>\<open>reconnectFn()\<close> settles: it returned a
  boolean or it threw. Between the two parts the event loop may run any other
  call or callback.
\<close>

datatype outcome = Returned bool | Threw string

definition attempt :: "nat \<Rightarrow> bool \<Rightarrow> watchdog \<Rightarrow> watchdog" where
  "attempt now isConn w =
     (if stopped w then w
      else if \<not> reconnectFn w \<or> \<not> isConnectedFn w then w
      else if isConn then onConnected w
      else let w1 = w\<lparr>attempts := attempts w + 1, lastAttemptAt := Some now,
                      nextAttemptAt := None\<rparr>;
               w2 = setState Connecting w1;
               w3 = emit (Attempt (attempts w2)) w2
           in w3\<lparr>inflight := inflight w3 + 1\<rparr>)"

definition attemptSettled :: "nat \<Rightarrow> outcome \<Rightarrow> watchdog \<Rightarrow> watchdog" where
  "attemptSettled now r w =
     (case r of
        Returned success \<Rightarrow>
          (if success
           then setState Watching (onConnected (emit (Reconnected (attempts w)) w))
           else onAttemptFailed now msg_falha_na_reconexao w)
      | Threw msg \<Rightarrow> onAttemptFailed now msg w)"

text \<open>
  What the event loop can do to a watchdog: a call of a public method, a
  scheduled timeout firing (it leaves the set of scheduled timeouts and runs
  \<^verbatim>\<open>_attempt\<close>), or the promise of a suspended attempt settling.
\<close>

datatype wd_input =
    Configure
  | Start
  | Stop
  | OnConnected
  | OnDisconnected "string option"
  | TimerFires nat bool
  | ReconnectSettles outcome

definition step :: "nat \<Rightarrow> wd_input \<Rightarrow> watchdog \<Rightarrow> watchdog" where
  "step now i w =
     (case i of
        Configure \<Rightarrow> configure w
      | Start \<Rightarrow> start now w
      | Stop \<Rightarrow> stop w
      | OnConnected \<Rightarrow> onConnected w
      | OnDisconnected reason \<Rightarrow> onDisconnected now reason w
      | TimerFires h isConn \<Rightarrow>
          (if h \<in> fst ` set (timeouts w) then attempt now isConn (clearTimeout h w) else w)
      | ReconnectSettles r \<Rightarrow>
          (if inflight w = 0 then w
           else attemptSettled now r (w\<lparr>inflight := inflight w - 1\<rparr>)))"

fun run :: "(nat \<times> wd_input) list \<Rightarrow> watchdog \<Rightarrow> watchdog" where
  "run [] w = w"
| "run ((now, i) # is) w = run is (step now i w)"

text \<open>
  The test suite's always-failing reconnect function: \<open>k\<close> rounds of the
  scheduled timeout firing while disconnected and the attempt returning
  \<^verbatim>\<open>false\<close>. After \<open>configure\<close> and \<open>start\<close> on a new watchdog the timeouts are
  numbered \<open>0, 1, 2, ...\<close> in the order they are scheduled.
\<close>

definition failures :: "(nat \<Rightarrow> nat) \<Rightarrow> nat \<Rightarrow> (nat \<times> wd_input) list" where
  "failures tm k =
     concat (map (\<lambda>j. [(tm j, TimerFires j False), (tm j, ReconnectSettles (Returned False))])
                 [0..<k])"

section \<open>matrix-client.ts\<close>

subsection \<open>The patterns\<close>

text \<open>
  In the order of the source: the telemetry line of \<^verbatim>\<open>handleResponse\<close>, the
  command patterns of \<^verbatim>\<open>simulateResponse\<close>, and the trailing number of
  \<^verbatim>\<open>getGain\<close>, \<^verbatim>\<open>getSend\<close>, \<^verbatim>\<open>getVU\<close> and \<^verbatim>\<open>getPreset\<close>.
\<close>

definition re_vu_line :: "(bool \<times> atom) list" where
  "re_vu_line = [(False, Lit ''VU''), (False, Plus Space), (True, Alt [''IN'', ''OUT'', ''STIN'']),
     (False, Plus Space), (True, Plus Digit), (False, Plus Space), (False, Lit ''=''),
     (False, Plus Space), (True, Plus NumCh)]"

definition re_get_vu :: "(bool \<times> atom) list" where
  "re_get_vu = [(False, Lit ''GET VU ''), (True, Alt [''IN'', ''OUT'', ''STIN'']),
     (False, Lit '' ''), (True, Plus Digit)]"

definition re_get_gain :: "(bool \<times> atom) list" where
  "re_get_gain = [(False, Lit ''GET GAIN ''), (True, Alt [''IN'', ''OUT'', ''STIN'']),
     (False, Lit '' ''), (True, Plus Digit)]"

definition re_set_gain :: "(bool \<times> atom) list" where
  "re_set_gain = [(False, Lit ''SET GAIN ''), (True, Alt [''IN'', ''OUT'', ''STIN'']),
     (False, Lit '' ''), (True, Plus Digit), (False, Lit '' = ''), (True, Plus NumCh)]"

definition re_set_send :: "(bool \<times> atom) list" where
  "re_set_send = [(False, Lit ''SET SEND ''), (True, Alt [''IN'', ''STIN'']),
     (False, Lit '' ''), (True, Plus Digit), (False, Lit '' OUT ''), (True, Plus Digit),
     (False, Lit '' = ''), (True, Plus NumCh)]"

definition re_get_send :: "(bool \<times> atom) list" where
  "re_get_send = [(False, Lit ''GET SEND ''), (True, Alt [''IN'', ''STIN'']),
     (False, Lit '' ''), (True, Plus Digit), (False, Lit '' OUT ''), (True, Plus Digit)]"

definition re_set_mute :: "(bool \<times> atom) list" where
  "re_set_mute = [(False, Lit ''SET MUTE ''), (True, Alt [''IN'', ''OUT'', ''STIN'']),
     (False, Lit '' ''), (True, Plus Digit), (False, Lit '' ''), (True, Alt [''ON'', ''OFF''])]"

definition re_set_preset :: "(bool \<times> atom) list" where
  "re_set_preset = [(False, Lit ''SET PRESET ''), (True, Plus Digit)]"

definition re_number_suffix :: "(bool \<times> atom) list" where
  "re_number_suffix = [(True, Plus NumCh), (False, Star Space), (False, Eos)]"

definition re_digits_suffix :: "(bool \<times> atom) list" where
  "re_digits_suffix = [(True, Plus Digit), (False, Star Space), (False, Eos)]"

subsection \<open>Configuration and state\<close>

text \<open>
  The client is a class with private fields over sockets, timers and
  promises. The record holds the fields (a socket field by whether it is set)
  and the part of the runtime the class talks to: the events given to
  \<^verbatim>\<open>emit\<close>, the scheduled timeouts with their delay and callback, whether the
  simulator's interval is running, how each promise returned by \<^verbatim>\<open>sendRaw\<close> was
  settled, and the payloads written to the socket. A JavaScript \<^verbatim>\<open>Map\<close> is an
  association list in insertion order (\<open>AList.update\<close> keeps the place of an
  existing key and appends a new one, as \<^verbatim>\<open>Map.set\<close> does). A pending command
  is the promise its \<^verbatim>\<open>resolve\<close> and \<^verbatim>\<open>reject\<close> belong to and the handle of its
  timeout.
\<close>

datatype protocol = TCP | UDP

record MatrixClientConfig =
  host :: string
  port :: nat
  protocol :: protocol
  simulatorMode :: bool
  reconnectInterval :: real
  commandTimeout :: real

record PartialConfig =
  host_opt :: "string option"
  port_opt :: "nat option"
  protocol_opt :: "protocol option"
  simulatorMode_opt :: "bool option"
  reconnectInterval_opt :: "real option"
  commandTimeout_opt :: "real option"

definition DEFAULT_CONFIG :: MatrixClientConfig where
  "DEFAULT_CONFIG = \<lparr> host = ''192.168.2.1'', port = 3000, protocol = TCP, simulatorMode = False,
     reconnectInterval = 3000, commandTimeout = 2000 \<rparr>"

definition merge_config :: "MatrixClientConfig \<Rightarrow> PartialConfig \<Rightarrow> MatrixClientConfig" where
  "merge_config base p =
     \<lparr> host = (case host_opt p of None \<Rightarrow> host base | Some v \<Rightarrow> v),
       port = (case port_opt p of None \<Rightarrow> port base | Some v \<Rightarrow> v),
       protocol = (case protocol_opt p of None \<Rightarrow> protocol base | Some v \<Rightarrow> v),
       simulatorMode = (case simulatorMode_opt p of None \<Rightarrow> simulatorMode base | Some v \<Rightarrow> v),
       reconnectInterval =
         (case reconnectInterval_opt p of None \<Rightarrow> reconnectInterval base | Some v \<Rightarrow> v),
       commandTimeout = (case commandTimeout_opt p of None \<Rightarrow> commandTimeout base | Some v \<Rightarrow> v) \<rparr>"

datatype failure = NotConnected | Timeout string

datatype settlement = Resolved string | Rejected failure

datatype callback =
    CommandTimeout string nat string
  | SimulatedReply nat string
  | Reconnect

datatype client_event =
    EvConnected
  | EvDisconnected
  | EvError
  | EvVU string nat number number

record client =
  config :: MatrixClientConfig
  tcpClient :: bool
  udpClient :: bool
  connected :: bool
  reconnectTimer :: "nat option"
  pendingCommands :: "(string \<times> nat \<times> nat) list"
  simulatorVU :: "(string \<times> real) list"
  simulatorGains :: "(string \<times> number) list"
  simulatorMutes :: "(string \<times> bool) list"
  simulatorSends :: "(string \<times> number) list"
  simulatorPreset :: nat
  events :: "client_event list"
  timers :: "(nat \<times> real \<times> callback) list"
  nextTimer :: nat
  vuInterval :: bool
  settled :: "(nat \<times> settlement) list"
  nextPromise :: nat
  written :: "string list"

subsection \<open>Runtime primitives\<close>

text \<open>
  \<^verbatim>\<open>setTimeout\<close> returns a fresh handle; \<^verbatim>\<open>clearTimeout\<close> drops the timeout with
  that handle if it is still scheduled; settling a promise that is already
  settled has no effect.
\<close>

definition emitC :: "client_event \<Rightarrow> client \<Rightarrow> client" where
  "emitC e c = c\<lparr>events := events c @ [e]\<rparr>"

definition setTimeoutC :: "callback \<Rightarrow> real \<Rightarrow> client \<Rightarrow> nat \<times> client" where
  "setTimeoutC cb delay c =
     (nextTimer c, c\<lparr>timers := timers c @ [(nextTimer c, delay, cb)], nextTimer := nextTimer c + 1\<rparr>)"

definition clearTimeoutC :: "nat \<Rightarrow> client \<Rightarrow> client" where
  "clearTimeoutC h c = c\<lparr>timers := filter (\<lambda>t. fst t \<noteq> h) (timers c)\<rparr>"

definition settle :: "nat \<Rightarrow> settlement \<Rightarrow> client \<Rightarrow> client" where
  "settle p r c =
     (case map_of (settled c) p of
        None \<Rightarrow> c\<lparr>settled := settled c @ [(p, r)]\<rparr>
      | Some _ \<Rightarrow> c)"

subsection \<open>Construction, simulator, connection\<close>

text \<open>
  \<^verbatim>\<open>initSimulator\<close>: the bodies of its three loops, then the loops over
  \<open>1..20\<close>, \<open>1..8\<close> and \<open>1..3\<close>. The \<open>i\<close>-th input channel takes the \<open>(i-1)\<close>-th
  value drawn from \<^verbatim>\<open>Math.random()\<close>, the \<open>i\<close>-th output the \<open>(20+i-1)\<close>-th.
\<close>

definition initIN :: "(nat \<Rightarrow> real) \<Rightarrow> client \<Rightarrow> nat \<Rightarrow> client" where
  "initIN rnd c i =
     c\<lparr>simulatorGains := AList.update (''IN:'' @ show_nat i) (Num (- 10)) (simulatorGains c),
       simulatorMutes := AList.update (''IN:'' @ show_nat i) False (simulatorMutes c),
       simulatorVU := AList.update (''IN:'' @ show_nat i) (- 20 - rnd (i - 1) * 20) (simulatorVU c)\<rparr>"

definition initOUT :: "(nat \<Rightarrow> real) \<Rightarrow> client \<Rightarrow> nat \<Rightarrow> client" where
  "initOUT rnd c i =
     c\<lparr>simulatorGains := AList.update (''OUT:'' @ show_nat i) (Num (- 10)) (simulatorGains c),
       simulatorMutes := AList.update (''OUT:'' @ show_nat i) False (simulatorMutes c),
       simulatorVU := AList.update (''OUT:'' @ show_nat i) (- 15 - rnd (20 + (i - 1)) * 15) (simulatorVU c)\<rparr>"

definition initSTIN :: "client \<Rightarrow> nat \<Rightarrow> client" where
  "initSTIN c i =
     c\<lparr>simulatorGains := AList.update (''STIN:'' @ show_nat i) (Num (- 10)) (simulatorGains c),
       simulatorMutes := AList.update (''STIN:'' @ show_nat i) False (simulatorMutes c)\<rparr>"

definition initSimulator :: "(nat \<Rightarrow> real) \<Rightarrow> client \<Rightarrow> client" where
  "initSimulator rnd c =
     (let c1 = foldl (initIN rnd) c [1 ..< 21];
          c2 = foldl (initOUT rnd) c1 [1 ..< 9];
          c3 = foldl initSTIN c2 [1 ..< 4]
      in emitC EvConnected (c3\<lparr>vuInterval := True, connected := True\<rparr>))"

definition vuTick :: "(nat \<Rightarrow> real) \<Rightarrow> client \<Rightarrow> client" where
  "vuTick rnd c =
     c\<lparr>simulatorVU :=
         map (\<lambda>(i, key, val). (key, max (- 60) (min 0 (val + (rnd i - 1 / 2) * 4))))
             (enumerate 0 (simulatorVU c))\<rparr>"

definition new_client :: "MatrixClientConfig \<Rightarrow> client" where
  "new_client cfg = \<lparr> config = cfg, tcpClient = False, udpClient = False, connected = False,
     reconnectTimer = None, pendingCommands = [], simulatorVU = [], simulatorGains = [],
     simulatorMutes = [], simulatorSends = [], simulatorPreset = 1, events = [], timers = [],
     nextTimer = 0, vuInterval = False, settled = [], nextPromise = 0, written = [] \<rparr>"

definition constructor :: "PartialConfig \<Rightarrow> (nat \<Rightarrow> real) \<Rightarrow> client" where
  "constructor p rnd =
     (let c = new_client (merge_config DEFAULT_CONFIG p)
      in if simulatorMode (config c) then initSimulator rnd c else c)"

definition isConnected :: "client \<Rightarrow> bool" where
  "isConnected c = connected c"

definition isSimulator :: "client \<Rightarrow> bool" where
  "isSimulator c = simulatorMode (config c)"

definition updateConfig :: "PartialConfig \<Rightarrow> client \<Rightarrow> client" where
  "updateConfig p c = c\<lparr>config := merge_config (config c) p\<rparr>"

definition connect :: "client \<Rightarrow> client" where
  "connect c =
     (if simulatorMode (config c) then emitC EvConnected (c\<lparr>connected := True\<rparr>)
      else if protocol (config c) = TCP then c\<lparr>tcpClient := True\<rparr>
      else c\<lparr>udpClient := True\<rparr>)"

definition scheduleReconnect :: "client \<Rightarrow> client" where
  "scheduleReconnect c =
     (case reconnectTimer c of
        Some _ \<Rightarrow> c
      | None \<Rightarrow> (let (h, c1) = setTimeoutC Reconnect (reconnectInterval (config c)) c
                 in c1\<lparr>reconnectTimer := Some h\<rparr>))"

definition disconnect :: "client \<Rightarrow> client" where
  "disconnect c =
     (let c1 = (case reconnectTimer c of
                  None \<Rightarrow> c
                | Some h \<Rightarrow> (clearTimeoutC h c)\<lparr>reconnectTimer := None\<rparr>)
      in emitC EvDisconnected (c1\<lparr>tcpClient := False, udpClient := False, connected := False\<rparr>))"

subsection \<open>Responses and commands\<close>

text \<open>
  \<^verbatim>\<open>handleResponse\<close>: every non-blank line of the data emits a \<^verbatim>\<open>vu\<close> event if
  it contains a telemetry reading, and then runs
  \<^verbatim>\<open>this.pendingCommands.forEach(...)\<close>, which clears the timeout of every
  pending command, resolves it with the line and deletes it.
\<close>

definition resolvePending :: "string \<Rightarrow> client \<Rightarrow> client" where
  "resolvePending trimmed c =
     foldl (\<lambda>c (key, p, t).
              (settle p (Resolved trimmed) (clearTimeoutC t c))
                \<lparr>pendingCommands := AList.delete key (pendingCommands c)\<rparr>)
           c (pendingCommands c)"

definition handleLine :: "client \<Rightarrow> string \<Rightarrow> client" where
  "handleLine c line =
     (let trimmed = trim line
      in if trimmed = [] then c
         else resolvePending trimmed
                (case groups3 (match True re_vu_line trimmed) of
                   Some (ch, n, v) \<Rightarrow> emitC (EvVU ch (parse_digits n) (parseFloat v) (parseFloat v)) c
                 | None \<Rightarrow> c))"

definition handleResponse :: "string \<Rightarrow> client \<Rightarrow> client" where
  "handleResponse data c = foldl handleLine c (split LF (trim data))"

definition toFixed1n :: "number \<Rightarrow> string" where
  "toFixed1n v = (case v of NaN \<Rightarrow> ''NaN'' | Num x \<Rightarrow> toFixed1 x)"

text \<open>
  \<^verbatim>\<open>simulateResponse\<close> is a sequence of blocks
  \<^verbatim>\<open>const m = upper.match(...); if (m) { ...; return ...; }\<close>. Each block is a
  function that gives the response and the new state when its pattern
  matches and \<open>None\<close> when control falls through to the next block.
\<close>

definition simGetVU :: "string \<Rightarrow> client \<Rightarrow> (string \<times> client) option" where
  "simGetVU upper c =
     (case groups2 (match False re_get_vu upper) of
        None \<Rightarrow> None
      | Some (ch, n) \<Rightarrow>
          (let val = (case map_of (simulatorVU c) (ch @ '':'' @ n) of None \<Rightarrow> - 40 | Some v \<Rightarrow> v)
           in Some (''VU '' @ ch @ '' '' @ n @ '' = '' @ toFixed1 val, c)))"

definition simGetGain :: "string \<Rightarrow> client \<Rightarrow> (string \<times> client) option" where
  "simGetGain upper c =
     (case groups2 (match False re_get_gain upper) of
        None \<Rightarrow> None
      | Some (ch, n) \<Rightarrow>
          (let val = (case map_of (simulatorGains c) (ch @ '':'' @ n) of None \<Rightarrow> Num (- 10) | Some v \<Rightarrow> v)
           in Some (''GAIN '' @ ch @ '' '' @ n @ '' = '' @ toFixed1n val, c)))"

definition simSetGain :: "string \<Rightarrow> client \<Rightarrow> (string \<times> client) option" where
  "simSetGain upper c =
     (case groups3 (match False re_set_gain upper) of
        None \<Rightarrow> None
      | Some (ch, n, v) \<Rightarrow>
          Some (''OK GAIN '' @ ch @ '' '' @ n @ '' = '' @ v,
                c\<lparr>simulatorGains := AList.update (ch @ '':'' @ n) (parseFloat v) (simulatorGains c)\<rparr>))"

definition simSetSend :: "string \<Rightarrow> client \<Rightarrow> (string \<times> client) option" where
  "simSetSend upper c =
     (case groups4 (match False re_set_send upper) of
        None \<Rightarrow> None
      | Some (ch, n, b, v) \<Rightarrow>
          Some (''OK SEND '' @ ch @ '' '' @ n @ '' OUT '' @ b @ '' = '' @ v,
                c\<lparr>simulatorSends :=
                     AList.update (''SEND:'' @ ch @ '':'' @ n @ '':OUT:'' @ b) (parseFloat v)
                       (simulatorSends c)\<rparr>))"

definition simGetSend :: "string \<Rightarrow> client \<Rightarrow> (string \<times> client) option" where
  "simGetSend upper c =
     (case groups3 (match False re_get_send upper) of
        None \<Rightarrow> None
      | Some (ch, n, b) \<Rightarrow>
          (let val = (case map_of (simulatorSends c) (''SEND:'' @ ch @ '':'' @ n @ '':OUT:'' @ b) of
                        None \<Rightarrow> Num (- 10) | Some v \<Rightarrow> v)
           in Some (''SEND '' @ ch @ '' '' @ n @ '' OUT '' @ b @ '' = '' @ toFixed1n val, c)))"

definition simSetMute :: "string \<Rightarrow> client \<Rightarrow> (string \<times> client) option" where
  "simSetMute upper c =
     (case groups3 (match False re_set_mute upper) of
        None \<Rightarrow> None
      | Some (ch, n, m) \<Rightarrow>
          Some (''OK MUTE '' @ ch @ '' '' @ n @ '' '' @ m,
                c\<lparr>simulatorMutes := AList.update (ch @ '':'' @ n) (m = ''ON'') (simulatorMutes c)\<rparr>))"

definition simSetPreset :: "string \<Rightarrow> client \<Rightarrow> (string \<times> client) option" where
  "simSetPreset upper c =
     (case groups1 (match False re_set_preset upper) of
        None \<Rightarrow> None
      | Some n \<Rightarrow> Some (''OK PRESET '' @ n, c\<lparr>simulatorPreset := parse_digits n\<rparr>))"

definition simulateResponse :: "string \<Rightarrow> client \<Rightarrow> string \<times> client" where
  "simulateResponse command c =
     (let upper = trim (toUpperCase command) in
      case simGetVU upper c of Some r \<Rightarrow> r | None \<Rightarrow>
      (case simGetGain upper c of Some r \<Rightarrow> r | None \<Rightarrow>
      (case simSetGain upper c of Some r \<Rightarrow> r | None \<Rightarrow>
      (case simSetSend upper c of Some r \<Rightarrow> r | None \<Rightarrow>
      (case simGetSend upper c of Some r \<Rightarrow> r | None \<Rightarrow>
      (case simSetMute upper c of Some r \<Rightarrow> r | None \<Rightarrow>
      (if upper = ''GET PRESET'' then (''PRESET = '' @ show_nat (simulatorPreset c), c)
       else
      (case simSetPreset upper c of Some r \<Rightarrow> r | None \<Rightarrow> (''OK'', c)))))))))"

text \<open>
  \<^verbatim>\<open>sendRaw\<close> returns a new promise. The command identifier
  \<^verbatim>\<open>`${Date.now()}-${Math.random()}`\<close> and the random number of the simulated
  delay are inputs. A scheduled timeout that fires leaves the set of
  scheduled timeouts and runs its callback.
\<close>

definition sendRaw :: "string \<Rightarrow> string \<Rightarrow> real \<Rightarrow> client \<Rightarrow> nat \<times> client" where
  "sendRaw command cmdId rnd c =
     (let p = nextPromise c;
          c0 = c\<lparr>nextPromise := p + 1\<rparr>
      in if simulatorMode (config c0)
         then (let (response, c1) = simulateResponse command c0;
                   (h, c2) = setTimeoutC (SimulatedReply p response) (10 + rnd * 20) c1
               in (p, c2))
         else if \<not> connected c0 then (p, settle p (Rejected NotConnected) c0)
         else (let (timer, c1) = setTimeoutC (CommandTimeout cmdId p command) (commandTimeout (config c0)) c0;
                   c2 = c1\<lparr>pendingCommands := AList.update cmdId (p, timer) (pendingCommands c1)\<rparr>;
                   payload = command @ [CR, LF]
               in (p, if protocol (config c2) = TCP \<and> tcpClient c2 then c2\<lparr>written := written c2 @ [payload]\<rparr>
                      else if protocol (config c2) = UDP \<and> udpClient c2 then c2\<lparr>written := written c2 @ [payload]\<rparr>
                      else c2)))"

definition runCallback :: "callback \<Rightarrow> client \<Rightarrow> client" where
  "runCallback cb c =
     (case cb of
        CommandTimeout cmdId p command \<Rightarrow>
          settle p (Rejected (Timeout command))
            (c\<lparr>pendingCommands := AList.delete cmdId (pendingCommands c)\<rparr>)
      | SimulatedReply p response \<Rightarrow> settle p (Resolved response) c
      | Reconnect \<Rightarrow> connect (c\<lparr>reconnectTimer := None\<rparr>))"

definition timerFires :: "nat \<Rightarrow> client \<Rightarrow> client" where
  "timerFires h c =
     (case map_of (timers c) h of
        None \<Rightarrow> c
      | Some (delay, cb) \<Rightarrow> runCallback cb (clearTimeoutC h c))"

subsection \<open>Public interface\<close>

text \<open>
  Every public operation sends one command with \<^verbatim>\<open>sendRaw\<close>; the getters then
  read the number at the end of the response. \<open>command\<close> is the text each
  operation sends, \<open>numberOf\<close> what \<^verbatim>\<open>getGain\<close>, \<^verbatim>\<open>getSend\<close> and \<^verbatim>\<open>getVU\<close> return
  for a response, \<open>presetOf\<close> what \<^verbatim>\<open>getPreset\<close> returns.
\<close>

datatype channel = IN | OUT | STIN

fun channel_str :: "channel \<Rightarrow> string" where
  "channel_str IN = ''IN''"
| "channel_str OUT = ''OUT''"
| "channel_str STIN = ''STIN''"

datatype source = SRC_IN | SRC_STIN

fun source_str :: "source \<Rightarrow> string" where
  "source_str SRC_IN = ''IN''"
| "source_str SRC_STIN = ''STIN''"

datatype api =
    SetGain channel nat real
  | GetGain channel nat
  | SetSend source nat nat real
  | GetSend source nat nat
  | SetMute channel nat bool
  | GetVU channel nat
  | SetPreset nat
  | GetPreset

fun command :: "api \<Rightarrow> string" where
  "command (SetGain ch n dB) =
     ''SET GAIN '' @ channel_str ch @ '' '' @ show_nat n @ '' = '' @ toFixed1 (max (- 60) (min 10 dB))"
| "command (GetGain ch n) = ''GET GAIN '' @ channel_str ch @ '' '' @ show_nat n"
| "command (SetSend src n bus dB) =
     ''SET SEND '' @ source_str src @ '' '' @ show_nat n @ '' OUT '' @ show_nat bus @ '' = '' @
       toFixed1 (max (- 60) (min 10 dB))"
| "command (GetSend src n bus) =
     ''GET SEND '' @ source_str src @ '' '' @ show_nat n @ '' OUT '' @ show_nat bus"
| "command (SetMute ch n muted) =
     ''SET MUTE '' @ channel_str ch @ '' '' @ show_nat n @ '' '' @ (if muted then ''ON'' else ''OFF'')"
| "command (GetVU ch n) = ''GET VU '' @ channel_str ch @ '' '' @ show_nat n"
| "command (SetPreset n) = ''SET PRESET '' @ show_nat n"
| "command GetPreset = ''GET PRESET''"

definition numberOf :: "string \<Rightarrow> number" where
  "numberOf resp =
     (case groups1 (match False re_number_suffix resp) of
        Some m \<Rightarrow> parseFloat m
      | None \<Rightarrow> Num (- 60))"

definition presetOf :: "string \<Rightarrow> nat" where
  "presetOf resp =
     (case groups1 (match False re_digits_suffix resp) of
        Some m \<Rightarrow> parse_digits m
      | None \<Rightarrow> 1)"

text \<open>
  The static conversions between a slider level and decibels. Numbers are
  real numbers here: \<^verbatim>\<open>Math.log10\<close> and \<^verbatim>\<open>Math.pow(10, x)\<close> are the real
  logarithm and power, without the rounding of double-precision arithmetic.
  The comparisons and the constant results of the clamping branches are those
  of the code; a computed value is the code's value up to that rounding, so
  what is proved below about a computed value is an inequality with a margin
  of whole decibels, not an equation.
\<close>

definition levelToDb :: "real \<Rightarrow> real" where
  "levelToDb level = (if level \<le> 0 then - 60 else if level \<ge> 1 then 0 else 20 * log 10 level)"

definition dbToLevel :: "real \<Rightarrow> real" where
  "dbToLevel dB = (if dB \<le> - 60 then 0 else if dB \<ge> 0 then 1 else 10 powr (dB / 20))"

subsection \<open>The event loop\<close>

text \<open>
  What can happen to a client: a call of a public method, an event of a
  socket the client has listeners on, a scheduled timeout firing, or the
  simulator's interval firing (with the random numbers it draws).
\<close>

datatype client_input =
    Connect
  | Disconnect
  | UpdateConfig PartialConfig
  | Call api string real
  | TcpConnect
  | TcpData string
  | TcpError
  | TcpClose
  | UdpBind
  | UdpMessage string
  | UdpError
  | TimeoutFires nat
  | IntervalTick "nat \<Rightarrow> real"

definition stepC :: "client_input \<Rightarrow> client \<Rightarrow> client" where
  "stepC i c =
     (case i of
        Connect \<Rightarrow> connect c
      | Disconnect \<Rightarrow> disconnect c
      | UpdateConfig p \<Rightarrow> updateConfig p c
      | Call a cmdId rnd \<Rightarrow> snd (sendRaw (command a) cmdId rnd c)
      | TcpConnect \<Rightarrow> emitC EvConnected (c\<lparr>connected := True\<rparr>)
      | TcpData d \<Rightarrow> handleResponse d c
      | TcpError \<Rightarrow> scheduleReconnect (emitC EvError (c\<lparr>connected := False\<rparr>))
      | TcpClose \<Rightarrow> scheduleReconnect (emitC EvDisconnected (c\<lparr>connected := False\<rparr>))
      | UdpBind \<Rightarrow> emitC EvConnected (c\<lparr>connected := True\<rparr>)
      | UdpMessage d \<Rightarrow> handleResponse d c
      | UdpError \<Rightarrow> emitC EvError c
      | TimeoutFires h \<Rightarrow> timerFires h c
      | IntervalTick rnd \<Rightarrow> (if vuInterval c then vuTick rnd c else c))"

fun runC :: "client_input list \<Rightarrow> client \<Rightarrow> client" where
  "runC [] c = c"
| "runC (i # is) c = runC is (stepC i c)"

definition defaults :: PartialConfig where
  "defaults = \<lparr> host_opt = None, port_opt = None, protocol_opt = None, simulatorMode_opt = None,
     reconnectInterval_opt = None, commandTimeout_opt = None \<rparr>"

section \<open>Predicates used in the proofs\<close>

text \<open>
  Two predicates used in the proofs below. \<open>retrying k\<close> describes the watchdog
  after \<open>k\<close> failed rounds; \<open>changes_only\<close> holds of every event except a
  \<open>stateChange\<close> whose two states are equal.
\<close>

definition retrying :: "nat \<Rightarrow> watchdog \<Rightarrow> bool" where
  "retrying k w \<longleftrightarrow>
     state w = Watching \<and> \<not> stopped w \<and> reconnectFn w \<and> isConnectedFn w \<and>
     timeouts w = [(k, currentIntervalMs w)] \<and> nextHandle w = Suc k \<and> inflight w = 0 \<and>
     attempts w = k \<and> currentIntervalMs w = min (30000 * 2 ^ k) 300000"

definition changes_only :: "wd_event \<Rightarrow> bool" where
  "changes_only e = (case e of StateChange new prev \<Rightarrow> new \<noteq> prev | _ \<Rightarrow> True)"

text \<open>\<open>round1 x\<close> is the number that \<open>x.toFixed(1)\<close> prints.\<close>

definition round1 :: "real \<Rightarrow> real" where
  "round1 x = (if x < 0 then - 1 else 1) * real (nat \<lfloor>\<bar>x\<bar> * 10 + 1 / 2\<rfloor>) / 10"

text \<open>
  \<open>sim_only c c'\<close>: \<open>c'\<close> differs from \<open>c\<close> at most in the simulator's gains,
  mutes, sends and preset. \<open>pending_ok\<close>: timeout handles are distinct and
  below the next handle, every pending command has its timeout scheduled,
  and the handle in \<open>reconnectTimer\<close> names no timeout but a reconnect.
\<close>

definition sim_only :: "client \<Rightarrow> client \<Rightarrow> bool" where
  "sim_only c c' \<longleftrightarrow>
     timers c' = timers c \<and> pendingCommands c' = pendingCommands c \<and>
     nextTimer c' = nextTimer c \<and> reconnectTimer c' = reconnectTimer c \<and>
     config c' = config c \<and> settled c' = settled c \<and> simulatorVU c' = simulatorVU c \<and>
     nextPromise c' = nextPromise c \<and> connected c' = connected c"

definition pending_ok :: "client \<Rightarrow> bool" where
  "pending_ok c \<longleftrightarrow>
     distinct (map fst (timers c)) \<and>
     (\<forall>t \<in> set (timers c). fst t < nextTimer c) \<and>
     (\<forall>e \<in> set (pendingCommands c).
        \<exists>d cmd. (snd (snd e), d, CommandTimeout (fst e) (fst (snd e)) cmd) \<in> set (timers c)) \<and>
     (\<forall>h. reconnectTimer c = Some h \<longrightarrow>
        h < nextTimer c \<and> (\<forall>d cb. (h, d, cb) \<in> set (timers c) \<longrightarrow> cb = Reconnect))"

text \<open>\<open>resolveOne\<close> is the body of the \<^verbatim>\<open>forEach\<close> in \<^verbatim>\<open>handleResponse\<close>.\<close>

definition resolveOne :: "string \<Rightarrow> client \<Rightarrow> string \<times> nat \<times> nat \<Rightarrow> client" where
  "resolveOne trimmed c e =
     (settle (fst (snd e)) (Resolved trimmed) (clearTimeoutC (snd (snd e)) c))
       \<lparr>pendingCommands := AList.delete (fst e) (pendingCommands c)\<rparr>"

text \<open>
  \<open>simulatedReply cmd c\<close> is the text that \<^verbatim>\<open>sendRaw\<close> computes for \<open>cmd\<close> in
  simulator mode, before it schedules the reply. \<open>vu_ok\<close>: every stored VU
  reading of the simulator is between \<open>-60\<close> and \<open>0\<close>.
\<close>

definition simulatedReply :: "string \<Rightarrow> client \<Rightarrow> string" where
  "simulatedReply cmd c = fst (simulateResponse cmd (c\<lparr>nextPromise := nextPromise c + 1\<rparr>))"


section \<open>Facts about decimal printing\<close>

lemma show_nat_nonempty: "show_nat n \<noteq> []"
  by (subst show_nat.simps) simp

lemma digit_char_inj: "a < 10 \<Longrightarrow> b < 10 \<Longrightarrow> digit_char a = digit_char b \<Longrightarrow> a = b"
proof -
  assume a: "a < 10" and b: "b < 10" and e: "digit_char a = digit_char b"
  have d: "distinct ''0123456789''" by simp
  from a b e show "a = b"
    unfolding digit_char_def by (subst (asm) nth_eq_iff_index_eq [OF d]) simp_all
qed

lemma show_nat_inj: "show_nat a = show_nat b \<Longrightarrow> a = b"
proof (induction a arbitrary: b rule: show_nat.induct)
  case (1 n)
  show ?case
  proof (cases "n < 10")
    case True
    then have sn: "show_nat n = [digit_char n]" by (subst show_nat.simps) simp
    show ?thesis
    proof (cases "b < 10")
      case True
      then have "show_nat b = [digit_char b]" by (subst show_nat.simps) simp
      with sn "1.prems" have "digit_char n = digit_char b" by simp
      with \<open>n < 10\<close> True show ?thesis by (rule digit_char_inj)
    next
      case False
      then have "show_nat b = show_nat (b div 10) @ [digit_char (b mod 10)]"
        by (subst show_nat.simps) simp
      with sn "1.prems" have "show_nat (b div 10) = []" by simp
      then show ?thesis by (simp add: show_nat_nonempty)
    qed
  next
    case False
    then have sn: "show_nat n = show_nat (n div 10) @ [digit_char (n mod 10)]"
      by (subst show_nat.simps) simp
    show ?thesis
    proof (cases "b < 10")
      case True
      then have "show_nat b = [digit_char b]" by (subst show_nat.simps) simp
      with sn "1.prems" have "show_nat (n div 10) = []" by simp
      then show ?thesis by (simp add: show_nat_nonempty)
    next
      case b: False
      then have "show_nat b = show_nat (b div 10) @ [digit_char (b mod 10)]"
        by (subst show_nat.simps) simp
      with sn "1.prems" have e1: "show_nat (n div 10) = show_nat (b div 10)"
        and e2: "digit_char (n mod 10) = digit_char (b mod 10)" by simp_all
      from "1.IH" [OF False e1] have d: "n div 10 = b div 10" .
      have m: "n mod 10 = b mod 10" by (rule digit_char_inj [OF _ _ e2]) simp_all
      from d m show ?thesis by (metis div_mult_mod_eq)
    qed
  qed
qed

lemma show_nat_0: "show_nat 0 = ''0''"
  by (subst show_nat.simps) (simp add: digit_char_def)

lemma show_nat_255: "show_nat 255 = ''255''"
  by (simp add: show_nat.simps digit_char_def)

section \<open>Facts about characters and decimal texts\<close>

lemma upt_10: "[0..<10] = [0, 1, 2, 3, 4, 5, 6, 7, 8, 9::nat]"
  by code_simp

lemma digit_char_cases:
  "d < 10 \<Longrightarrow> d = 0 \<or> d = 1 \<or> d = 2 \<or> d = 3 \<or> d = 4 \<or> d = 5 \<or> d = 6 \<or> d = 7 \<or> d = 8 \<or> d = (9::nat)"
proof -
  assume "d < 10"
  then have "d \<in> set [0..<10]" by simp
  then have "d \<in> set [0, 1, 2, 3, 4, 5, 6, 7, 8, 9::nat]" by (simp only: upt_10)
  then show ?thesis by simp
qed

lemma isdigit_digit_char: "d < 10 \<Longrightarrow> isdigit (digit_char d)"
  using digit_char_cases [of d] by (auto simp: isdigit_def digit_char_def)

lemma digit_val_digit_char: "d < 10 \<Longrightarrow> digit_val (digit_char d) = d"
  using digit_char_cases [of d] by (auto simp: digit_val_def digit_char_def)

lemma isdigit_isnumch: "isdigit c \<Longrightarrow> isnumch c"
  by (simp add: isnumch_def)

lemma isnumch_not_space: "isnumch c \<Longrightarrow> \<not> isspace c"
  by (auto simp: isnumch_def isspace_def isdigit_def TAB_def LF_def VT_def FF_def CR_def NBSP_def)

lemma isnumch_cases: "isnumch c \<Longrightarrow> c \<in> set ''-.0123456789''"
  by (auto simp: isnumch_def isdigit_def)

lemma toUpperChar_numch: "c \<in> set ''-.0123456789'' \<Longrightarrow> toUpperChar c = c"
  unfolding list.set by (elim insertE emptyE) (simp_all add: toUpperChar_def)

lemma isnumch_upper: "isnumch c \<Longrightarrow> toUpperChar c = c"
  by (rule toUpperChar_numch) (rule isnumch_cases)

lemma isdigit_upper: "isdigit c \<Longrightarrow> toUpperChar c = c"
  by (rule isnumch_upper) (rule isdigit_isnumch)

lemma show_nat_digits: "list_all isdigit (show_nat n)"
proof (induction n rule: show_nat.induct)
  case (1 n)
  show ?case
  proof (cases "n < 10")
    case True
    then show ?thesis by (subst show_nat.simps) (simp add: isdigit_digit_char)
  next
    case False
    with 1 show ?thesis by (subst show_nat.simps) (simp add: isdigit_digit_char)
  qed
qed

lemma parse_digits_snoc: "parse_digits (ds @ [c]) = 10 * parse_digits ds + digit_val c"
  by (simp add: parse_digits_def)

lemma parse_show_nat: "parse_digits (show_nat n) = n"
proof (induction n rule: show_nat.induct)
  case (1 n)
  show ?case
  proof (cases "n < 10")
    case True
    then show ?thesis
      by (subst show_nat.simps) (simp add: parse_digits_def digit_val_digit_char)
  next
    case False
    with 1 have "parse_digits (show_nat (n div 10)) = n div 10" by simp
    with False show ?thesis
      by (subst show_nat.simps) (simp add: parse_digits_snoc digit_val_digit_char)
  qed
qed

lemma takeWhile_run: "list_all P xs \<Longrightarrow> \<not> P y \<Longrightarrow> takeWhile P (xs @ y # ys) = xs"
  by (induction xs) simp_all

lemma dropWhile_run: "list_all P xs \<Longrightarrow> \<not> P y \<Longrightarrow> dropWhile P (xs @ y # ys) = y # ys"
  by (induction xs) simp_all

lemma not_digit_dot: "\<not> isdigit CHR ''.''"
  by (simp add: isdigit_def)

lemma hd_show_nat_not_minus: "hd (show_nat n @ s) \<noteq> CHR ''-''"
proof -
  obtain c cs where e: "show_nat n = c # cs" using show_nat_nonempty [of n] by (cases "show_nat n") auto
  with show_nat_digits [of n] have "isdigit c" by simp
  then have "c \<noteq> CHR ''-''" by (auto simp: isdigit_def)
  with e show ?thesis by simp
qed

lemma parseFloat_unsigned:
  assumes "d < 10"
  shows "parseFloat (show_nat q @ ''.'' @ [digit_char d]) = Num (real q + real d / 10)"
proof -
  let ?s = "show_nat q @ ''.'' @ [digit_char d]"
  have neg: "\<not> (?s \<noteq> [] \<and> hd ?s = CHR ''-'')" using hd_show_nat_not_minus [of q] by simp
  have ip: "takeWhile isdigit ?s = show_nat q"
    using takeWhile_run [OF show_nat_digits not_digit_dot] by simp
  have r: "dropWhile isdigit ?s = ''.'' @ [digit_char d]"
    using dropWhile_run [OF show_nat_digits not_digit_dot] by simp
  have fp: "takeWhile isdigit [digit_char d] = [digit_char d]"
    using assms by (simp add: isdigit_digit_char)
  have pd: "parse_digits [digit_char d] = d"
    using assms by (simp add: parse_digits_def digit_val_digit_char)
  show ?thesis
    unfolding parseFloat_def Let_def
    using neg ip r fp pd show_nat_nonempty [of q] by (simp add: parse_show_nat)
qed

lemma parseFloat_signed:
  assumes "d < 10"
  shows "parseFloat (''-'' @ show_nat q @ ''.'' @ [digit_char d]) = Num (- (real q + real d / 10))"
proof -
  let ?s = "show_nat q @ ''.'' @ [digit_char d]"
  have ip: "takeWhile isdigit ?s = show_nat q"
    using takeWhile_run [OF show_nat_digits not_digit_dot] by simp
  have r: "dropWhile isdigit ?s = ''.'' @ [digit_char d]"
    using dropWhile_run [OF show_nat_digits not_digit_dot] by simp
  have fp: "takeWhile isdigit [digit_char d] = [digit_char d]"
    using assms by (simp add: isdigit_digit_char)
  have pd: "parse_digits [digit_char d] = d"
    using assms by (simp add: parse_digits_def digit_val_digit_char)
  show ?thesis
    unfolding parseFloat_def Let_def
    using ip r fp pd show_nat_nonempty [of q] by (simp add: parse_show_nat)
qed

lemma parseFloat_toFixed1: "parseFloat (toFixed1 x) = Num (round1 x)"
proof -
  define n where "n = nat \<lfloor>\<bar>x\<bar> * 10 + 1 / 2\<rfloor>"
  have m: "n mod 10 < 10" by simp
  have v: "real (n div 10) + real (n mod 10) / 10 = real n / 10"
  proof -
    have "real n = real (10 * (n div 10) + n mod 10)" by simp
    also have "\<dots> = 10 * real (n div 10) + real (n mod 10)" by (simp only: of_nat_add of_nat_mult of_nat_numeral)
    finally show ?thesis by simp
  qed
  show ?thesis
  proof (cases "x < 0")
    case True
    then have "toFixed1 x = ''-'' @ show_nat (n div 10) @ ''.'' @ [digit_char (n mod 10)]"
      by (simp add: toFixed1_def n_def Let_def)
    with parseFloat_signed [OF m, of "n div 10"] v True show ?thesis
      by (simp add: round1_def n_def)
  next
    case False
    then have "toFixed1 x = show_nat (n div 10) @ ''.'' @ [digit_char (n mod 10)]"
      by (simp add: toFixed1_def n_def Let_def)
    with parseFloat_unsigned [OF m, of "n div 10"] v False show ?thesis
      by (simp add: round1_def n_def)
  qed
qed

lemma round1_int:
  "round1 x = (if x < 0 then - 1 else 1) * real_of_int \<lfloor>\<bar>x\<bar> * 10 + 1 / 2\<rfloor> / 10"
proof -
  have "0 \<le> \<lfloor>\<bar>x\<bar> * 10 + 1 / 2\<rfloor>" by simp
  then have "real (nat \<lfloor>\<bar>x\<bar> * 10 + 1 / 2\<rfloor>) = real_of_int \<lfloor>\<bar>x\<bar> * 10 + 1 / 2\<rfloor>"
    by simp
  then show ?thesis by (simp only: round1_def)
qed

lemma round1_gain_range:
  assumes "- 60 \<le> x" and "x \<le> 10"
  shows "- 60 \<le> round1 x \<and> round1 x \<le> 10"
proof -
  define n where "n = \<lfloor>\<bar>x\<bar> * 10 + 1 / 2\<rfloor>"
  have r: "round1 x = (if x < 0 then - 1 else 1) * real_of_int n / 10"
    unfolding n_def by (rule round1_int)
  have n0: "0 \<le> n" unfolding n_def by simp
  show ?thesis
  proof (cases "x < 0")
    case True
    with assms have "\<bar>x\<bar> * 10 + 1 / 2 < 601" by simp
    then have "n < 601" unfolding n_def by (simp add: floor_less_iff)
    with n0 True show ?thesis by (simp add: r)
  next
    case False
    with assms have "\<bar>x\<bar> * 10 + 1 / 2 < 101" by simp
    then have "n < 101" unfolding n_def by (simp add: floor_less_iff)
    with n0 False show ?thesis by (simp add: r)
  qed
qed


section \<open>Facts about the matcher\<close>

declare matchSeq.simps [simp del] matchAtom.simps [simp del]

lemma in_class_Space: "in_class Space = isspace"
  by (simp add: fun_eq_iff)

lemma in_class_Digit: "in_class Digit = isdigit"
  by (simp add: fun_eq_iff)

lemma in_class_NumCh: "in_class NumCh = isnumch"
  by (simp add: fun_eq_iff)

lemma splits_last: "splits P t = butlast (splits P t) @ [([], t)]"
  by (cases t) simp_all

lemma splits_run:
  "list_all P rn \<Longrightarrow> rest = [] \<or> \<not> P (hd rest) \<Longrightarrow>
   \<exists>others. splits P (rn @ rest) = (rn, rest) # others \<and> (rn \<noteq> [] \<longrightarrow> others \<noteq> [])"
proof (induction rn)
  case Nil
  then show ?case by (cases rest) auto
next
  case (Cons a rn)
  then obtain others where "splits P (rn @ rest) = (rn, rest) # others" by auto
  with Cons.prems show ?case by simp
qed

lemma plus_run:
  assumes "list_all (in_class k) rn" and "rn \<noteq> []" and "rest = [] \<or> \<not> in_class k (hd rest)"
  shows "\<exists>others. matchAtom ci (Plus k) (rn @ rest) = (rn, rest) # others"
proof -
  from splits_run [OF assms(1) assms(3)] assms(2)
  obtain others where s: "splits (in_class k) (rn @ rest) = (rn, rest) # others"
    and ne: "others \<noteq> []" by blast
  then have "butlast (splits (in_class k) (rn @ rest)) = (rn, rest) # butlast others" by simp
  then show ?thesis by (simp add: matchAtom.simps)
qed

lemma matchAt_Plus:
  assumes "list_all (in_class k) rn" and "rn \<noteq> []" and "rest = [] \<or> \<not> in_class k (hd rest)"
    and "matchAt ci p rest = Some caps"
  shows "matchAt ci ((cap, Plus k) # p) (rn @ rest) = Some (if cap then rn # caps else caps)"
proof -
  from plus_run [OF assms(1-3)] obtain others
    where a: "matchAtom ci (Plus k) (rn @ rest) = (rn, rest) # others" by blast
  from assms(4) obtain more where m: "matchSeq ci p rest = caps # more"
    by (auto simp: matchAt_def split: list.splits)
  have "matchSeq ci ((cap, Plus k) # p) (rn @ rest) =
        concat (map (\<lambda>(m, r). map (\<lambda>caps. if cap then m # caps else caps) (matchSeq ci p r))
                    (matchAtom ci (Plus k) (rn @ rest)))"
    by (simp add: matchSeq.simps)
  also have "\<dots> = map (\<lambda>caps. if cap then rn # caps else caps) (caps # more) @
        concat (map (\<lambda>(m, r). map (\<lambda>caps. if cap then m # caps else caps) (matchSeq ci p r)) others)"
    by (simp only: a m list.map concat.simps prod.case)
  finally show ?thesis by (simp add: matchAt_def)
qed

lemma matchAt_Plus_end:
  assumes "list_all (in_class k) rn" and "rn \<noteq> []"
  shows "matchAt ci [(cap, Plus k)] rn = Some (if cap then [rn] else [])"
proof -
  have n: "matchAt ci [] [] = Some []" by (simp add: matchAt_def matchSeq.simps)
  have e: "([]::string) = [] \<or> \<not> in_class k (hd [])" by simp
  from matchAt_Plus [of k rn "[]" ci "[]" "[]" cap, OF assms e n] show ?thesis by simp
qed

lemma lit_at_most_one: "lit ci l s = [] \<or> (\<exists>m r. lit ci l s = [(m, r)])"
  by (induction ci l s rule: lit.induct) auto

lemma matchAt_Lit:
  "matchAt ci ((cap, Lit l) # p) s =
     (case lit ci l s of [] \<Rightarrow> None
      | (m, r) # _ \<Rightarrow> map_option (\<lambda>caps. if cap then m # caps else caps) (matchAt ci p r))"
proof -
  from lit_at_most_one [of ci l s] consider "lit ci l s = []" | m r where "lit ci l s = [(m, r)]"
    by blast
  then show ?thesis
  proof cases
    case 1
    then show ?thesis by (simp add: matchAt_def matchSeq.simps matchAtom.simps)
  next
    case 2
    then show ?thesis
      by (cases "matchSeq ci p r") (simp_all add: matchAt_def matchSeq.simps matchAtom.simps)
  qed
qed

lemma matchAt_Alt_Nil: "matchAt ci ((cap, Alt []) # p) s = None"
  by (simp add: matchAt_def matchSeq.simps matchAtom.simps)

lemma matchSeq_Alt_Cons:
  "matchSeq ci ((cap, Alt (l # ls)) # p) s =
   matchSeq ci ((cap, Lit l) # p) s @ matchSeq ci ((cap, Alt ls) # p) s"
  by (simp add: matchSeq.simps matchAtom.simps)

lemma matchAt_Alt_Cons:
  "matchAt ci ((cap, Alt (l # ls)) # p) s =
     (case matchAt ci ((cap, Lit l) # p) s of
        None \<Rightarrow> matchAt ci ((cap, Alt ls) # p) s
      | Some caps \<Rightarrow> Some caps)"
proof (cases "matchSeq ci ((cap, Lit l) # p) s")
  case Nil
  then show ?thesis by (simp only: matchAt_def matchSeq_Alt_Cons) simp
next
  case (Cons a list)
  then show ?thesis by (simp only: matchAt_def matchSeq_Alt_Cons) simp
qed

lemma matchAt_Nil: "matchAt ci [] s = Some []"
  by (simp add: matchAt_def matchSeq.simps)

text \<open>Skipping over characters that cannot start a match.\<close>

lemma match_skip:
  "\<forall>c\<in>set d. (if ci then toUpperChar l0 \<noteq> toUpperChar c else l0 \<noteq> c) \<Longrightarrow>
   match ci ((cap, Lit (l0 # l)) # p) (d @ s) = match ci ((cap, Lit (l0 # l)) # p) s"
proof (induction d)
  case Nil
  show ?case by simp
next
  case (Cons a d)
  then have "lit ci (l0 # l) (a # d @ s) = []" by auto
  then have "matchAt ci ((cap, Lit (l0 # l)) # p) (a # d @ s) = None"
    by (simp add: matchAt_Lit)
  with Cons show ?case by simp
qed

text \<open>The trailing-number pattern.\<close>

lemma matchSeq_Eos: "matchSeq ci [(False, Eos)] r = (if r = [] then [[]] else [])"
  by (simp add: matchSeq.simps matchAtom.simps)

lemma eos_results:
  "concat (map (\<lambda>x::string \<times> string. if snd x = [] then [[]::string list] else []) (splits P t)) =
   (if list_all P t then [[]] else [])"
proof (induction t)
  case Nil
  show ?case by simp
next
  case (Cons c t)
  let ?f = "\<lambda>x :: string \<times> string. if snd x = [] then [[]::string list] else []"
  let ?g = "\<lambda>(m, r). (c # m, r) :: string \<times> string"
  have fg: "?f \<circ> ?g = ?f" by (simp add: fun_eq_iff split_beta)
  have e: "concat (map ?f (map ?g (splits P t))) = concat (map ?f (splits P t))"
    by (simp only: map_map fg)
  have l: "?f ([], c # t) = []" by simp
  show ?case
  proof (cases "P c")
    case True
    then have s: "splits P (c # t) = map ?g (splits P t) @ [([], c # t)]" by simp
    have "concat (map ?f (splits P (c # t))) = concat (map ?f (map ?g (splits P t))) @ ?f ([], c # t)"
      by (simp only: s map_append concat_append list.map concat.simps append_Nil2)
    also have "\<dots> = concat (map ?f (splits P t))" by (simp only: e l append_Nil2)
    also have "\<dots> = (if list_all P t then [[]] else [])" by (rule Cons.IH)
    finally show ?thesis using True by simp
  next
    case False
    then have s: "splits P (c # t) = [([], c # t)]" by simp
    have "concat (map ?f (splits P (c # t))) = ?f ([], c # t)"
      by (simp only: s list.map concat.simps append_Nil2)
    with l False show ?thesis by simp
  qed
qed

lemma star_eos:
  "matchSeq ci [(False, Star k), (False, Eos)] t = (if list_all (in_class k) t then [[]] else [])"
proof -
  have feq: "(\<lambda>(m::string, r::string). map (\<lambda>caps::string list. if False then m # caps else caps)
                (if r = [] then [[]] else [])) =
             (\<lambda>x. if snd x = [] then [[]] else [])"
    by (simp add: fun_eq_iff)
  have "matchSeq ci [(False, Star k), (False, Eos)] t =
        concat (map (\<lambda>(m, r). map (\<lambda>caps. if False then m # caps else caps)
                      (if r = [] then [[]] else []))
                    (splits (in_class k) t))"
    by (subst matchSeq.simps(2)) (simp only: matchAtom.simps matchSeq_Eos)
  then show ?thesis by (simp only: feq eos_results)
qed

lemma plus_star_eos_all:
  assumes disj: "\<And>c. P c \<Longrightarrow> \<not> in_class k c"
  shows "concat (map (\<lambda>(m, r). map (\<lambda>caps. h m # caps) (matchSeq ci [(False, Star k), (False, Eos)] r))
           (splits P t)) =
         (if list_all (in_class k) (dropWhile P t) then [[h (takeWhile P t)]] else [])"
proof (induction t arbitrary: h)
  case Nil
  show ?case by (simp add: star_eos)
next
  case (Cons c t)
  let ?F = "\<lambda>h. \<lambda>(m, r). map (\<lambda>caps. h m # caps) (matchSeq ci [(False, Star k), (False, Eos)] r)"
  let ?g = "\<lambda>(m, r). (c # m, r) :: string \<times> string"
  show ?case
  proof (cases "P c")
    case True
    have fg: "?F h \<circ> ?g = ?F (h \<circ> (#) c)" by (simp add: fun_eq_iff split_beta)
    have "concat (map (?F h) (map ?g (splits P t))) = concat (map (?F (h \<circ> (#) c)) (splits P t))"
      by (simp only: map_map fg)
    also have "\<dots> = (if list_all (in_class k) (dropWhile P t) then [[(h \<circ> (#) c) (takeWhile P t)]] else [])"
      by (rule Cons.IH)
    finally have a: "concat (map (?F h) (map ?g (splits P t))) =
          (if list_all (in_class k) (dropWhile P t) then [[h (c # takeWhile P t)]] else [])"
      by simp
    from True disj have b: "?F h ([], c # t) = []"
      by (simp add: star_eos)
    from True have s: "splits P (c # t) = map ?g (splits P t) @ [([], c # t)]" by simp
    have "concat (map (?F h) (splits P (c # t))) =
          concat (map (?F h) (map ?g (splits P t))) @ ?F h ([], c # t)"
      by (simp only: s map_append concat_append list.map concat.simps append_Nil2)
    also have "\<dots> = (if list_all (in_class k) (dropWhile P t) then [[h (c # takeWhile P t)]] else [])"
      by (simp only: a b append_Nil2)
    finally show ?thesis using True by simp
  next
    case False
    then have s: "splits P (c # t) = [([], c # t)]" by simp
    have "concat (map (?F h) (splits P (c # t))) = ?F h ([], c # t)"
      by (simp only: s list.map concat.simps append_Nil2)
    with False show ?thesis by (simp add: star_eos)
  qed
qed

lemma number_suffix_at:
  "matchAt False re_number_suffix t =
     (if takeWhile isnumch t \<noteq> [] \<and> list_all isspace (dropWhile isnumch t)
      then Some [takeWhile isnumch t] else None)"
proof -
  let ?F = "\<lambda>(m, r). map (\<lambda>caps. m # caps) (matchSeq False [(False, Star Space), (False, Eos)] r)"
  have all: "concat (map ?F (splits isnumch t)) =
        (if list_all isspace (dropWhile isnumch t) then [[takeWhile isnumch t]] else [])"
    using plus_star_eos_all [where P = isnumch and k = Space and ci = False and h = "\<lambda>m. m" and t = t] isnumch_not_space
    by (simp add: in_class_Space)
  have m: "matchSeq False re_number_suffix t = concat (map ?F (butlast (splits isnumch t)))"
    by (simp add: re_number_suffix_def matchSeq.simps(2) matchAtom.simps in_class_NumCh)
  show ?thesis
  proof (cases "takeWhile isnumch t = []")
    case True
    then have "splits isnumch t = [([], t)]" by (cases t) (auto split: if_splits)
    with m True show ?thesis by (simp add: matchAt_def)
  next
    case False
    then obtain c t' where t: "t = c # t'" and c: "isnumch c" by (cases t) (auto split: if_splits)
    then have "\<not> list_all isspace t" using isnumch_not_space by auto
    then have l: "?F ([], t) = []" by (simp add: star_eos in_class_Space)
    have "concat (map ?F (splits isnumch t)) =
          concat (map ?F (butlast (splits isnumch t) @ [([], t)]))"
      using splits_last [of isnumch t] by simp
    also have "\<dots> = concat (map ?F (butlast (splits isnumch t))) @ ?F ([], t)"
      by (simp only: map_append concat_append list.map concat.simps append_Nil2)
    also have "\<dots> = concat (map ?F (butlast (splits isnumch t)))"
      by (simp only: l append_Nil2)
    finally have "matchSeq False re_number_suffix t =
       (if list_all isspace (dropWhile isnumch t) then [[takeWhile isnumch t]] else [])"
      using m all by simp
    with False show ?thesis by (simp add: matchAt_def)
  qed
qed

lemma dropWhile_keeps:
  "\<not> P c \<Longrightarrow> \<exists>u. dropWhile P (pre @ c # v) = u @ c # v"
  by (induction pre) auto

lemma number_suffix_whole:
  assumes "v \<noteq> []" and "list_all isnumch v"
  shows "match False re_number_suffix v = Some [v]"
proof -
  from assms(2) have tw: "takeWhile isnumch v = v" and dw: "dropWhile isnumch v = []"
    unfolding list_all_iff by simp_all
  have "matchAt False re_number_suffix v =
     (if v \<noteq> [] \<and> list_all isspace [] then Some [v] else None)"
    by (simp only: number_suffix_at tw dw)
  with assms(1) have "matchAt False re_number_suffix v = Some [v]"
    by simp
  with assms show ?thesis by (cases v) simp_all
qed

lemma number_suffix_match:
  assumes "v \<noteq> []" and "list_all isnumch v" and "\<not> isnumch c"
  shows "match False re_number_suffix (pre @ c # v) = Some [v]"
proof (induction pre)
  case Nil
  from assms(3) have "matchAt False re_number_suffix (c # v) = None"
    by (simp add: number_suffix_at)
  with number_suffix_whole [OF assms(1,2)] show ?case by simp
next
  case (Cons x pre)
  from dropWhile_keeps [of isnumch c "x # pre" v, OF assms(3)]
  obtain u where u: "dropWhile isnumch ((x # pre) @ c # v) = u @ c # v" by blast
  from assms obtain a where "a \<in> set v" "\<not> isspace a"
    using isnumch_not_space by (cases v) (auto simp: list_all_iff)
  then have "\<not> list_all isspace (u @ c # v)" by (auto simp: list_all_iff)
  with u have "matchAt False re_number_suffix ((x # pre) @ c # v) = None"
    by (simp only: number_suffix_at) simp
  with Cons show ?case by simp
qed

section \<open>Facts about the watchdog\<close>

lemmas wd_defs = step_def start_def stop_def configure_def onConnected_def onDisconnected_def
  attempt_def attemptSettled_def onAttemptFailed_def scheduleNext_def setState_def emit_def
  clearTimer_def clearTimeout_def

lemmas wd_consts = new_watchdog_def BASE_INTERVAL_MS_def MAX_INTERVAL_MS_def
  BACKOFF_MULTIPLIER_def

lemma step_interval_bounds:
  assumes "30000 \<le> currentIntervalMs w" and "currentIntervalMs w \<le> 300000"
  shows "30000 \<le> currentIntervalMs (step now i w) \<and> currentIntervalMs (step now i w) \<le> 300000"
  using assms
  by (cases i) (auto simp: wd_defs wd_consts Let_def split: option.splits outcome.splits)

lemma run_interval_bounds:
  "30000 \<le> currentIntervalMs w \<Longrightarrow> currentIntervalMs w \<le> 300000 \<Longrightarrow>
   30000 \<le> currentIntervalMs (run tr w) \<and> currentIntervalMs (run tr w) \<le> 300000"
proof (induction tr arbitrary: w)
  case Nil
  then show ?case by simp
next
  case (Cons a tr)
  obtain now i where a: "a = (now, i)" by (cases a)
  from step_interval_bounds [OF Cons.prems, of now i] Cons.IH [of "step now i w"] a
  show ?case by simp
qed

lemma step_lowers_interval:
  "currentIntervalMs w \<le> 300000 \<Longrightarrow>
   currentIntervalMs (step now i w) < currentIntervalMs w \<Longrightarrow>
   i = Start \<or> i = OnConnected \<or> (\<exists>h. i = TimerFires h True) \<or>
   i = ReconnectSettles (Returned True)"
  by (cases i) (auto simp: wd_defs wd_consts Let_def split: option.splits outcome.splits if_splits)

lemma start_noop: "state w = Watching \<or> state w = Connecting \<Longrightarrow> start now w = w"
  by (auto simp: start_def)

lemma run_append: "run (a @ b) w = run b (run a w)"
  by (induction a arbitrary: w) auto

lemma failures_Suc:
  "failures tm (Suc k) =
   failures tm k @ [(tm k, TimerFires k False), (tm k, ReconnectSettles (Returned False))]"
  by (simp add: failures_def)

lemma retrying_start: "retrying 0 (run [(t, Configure), (t', Start)] new_watchdog)"
  by (simp add: retrying_def wd_defs wd_consts)

lemma retrying_failure:
  assumes "retrying k w"
  shows "retrying (Suc k) (run [(t, TimerFires k False), (t', ReconnectSettles (Returned False))] w)"
  using assms by (simp add: retrying_def wd_defs wd_consts Let_def min_def)

lemma retrying_failures:
  "retrying k (run ((t, Configure) # (t', Start) # failures tm k) new_watchdog)"
proof (induction k)
  case 0
  show ?case using retrying_start [of t t'] by (simp add: failures_def)
next
  case (Suc k)
  have "run ((t, Configure) # (t', Start) # failures tm (Suc k)) new_watchdog =
        run [(tm k, TimerFires k False), (tm k, ReconnectSettles (Returned False))]
          (run ((t, Configure) # (t', Start) # failures tm k) new_watchdog)"
    unfolding failures_Suc by (simp only: run_append [symmetric] append_Cons [symmetric] append_assoc)
  with retrying_failure [OF Suc] show ?case by simp
qed

lemma stop_stop: "stop (stop w) = stop w"
  by (simp add: stop_def setState_def emit_def clearTimer_def clearTimeout_def Let_def
      split: option.splits)

lemma stop_funpow: "(stop ^^ Suc n) w = stop w"
  by (induction n) (simp_all add: stop_stop)

lemma step_changes_only:
  "list_all changes_only (emitted w) \<Longrightarrow> list_all changes_only (emitted (step now i w))"
  by (cases i)
     (auto simp: wd_defs changes_only_def Let_def split: option.splits outcome.splits)

lemma run_changes_only:
  "list_all changes_only (emitted w) \<Longrightarrow> list_all changes_only (emitted (run tr w))"
  by (induction tr arbitrary: w) (auto simp: step_changes_only)

section \<open>Facts about the client\<close>

lemmas re_defs = re_get_vu_def re_get_gain_def re_set_gain_def re_set_send_def re_get_send_def
  re_set_mute_def re_set_preset_def re_vu_line_def re_digits_suffix_def re_number_suffix_def

lemmas str_eval = TAB_def LF_def VT_def FF_def CR_def NBSP_def isdigit_def isspace_def isnumch_def
  matchAt_def matchSeq.simps matchAtom.simps toUpperChar_def toUpperCase_def trim_def
  digit_val_def parse_digits_def parseFloat_def

lemmas cl_defs = stepC_def connect_def disconnect_def updateConfig_def sendRaw_def
  handleResponse_def handleLine_def resolvePending_def timerFires_def runCallback_def
  scheduleReconnect_def settle_def setTimeoutC_def clearTimeoutC_def emitC_def
  constructor_def new_client_def merge_config_def DEFAULT_CONFIG_def defaults_def

text \<open>What \<open>resolvePending\<close> does to each field.\<close>

lemma resolvePending_foldl:
  "resolvePending trimmed c = foldl (resolveOne trimmed) c (pendingCommands c)"
proof -
  have "(\<lambda>c (key, p, t). (settle p (Resolved trimmed) (clearTimeoutC t c))
          \<lparr>pendingCommands := AList.delete key (pendingCommands c)\<rparr>) = resolveOne trimmed"
    by (simp add: fun_eq_iff resolveOne_def split_beta)
  then show ?thesis by (simp add: resolvePending_def)
qed

lemma resolveOne_pending:
  "pendingCommands (resolveOne l c e) = AList.delete (fst e) (pendingCommands c)"
  by (simp add: resolveOne_def settle_def clearTimeoutC_def split: option.splits)

lemma resolveOne_timers:
  "timers (resolveOne l c e) = filter (\<lambda>t. fst t \<noteq> snd (snd e)) (timers c)"
  by (simp add: resolveOne_def settle_def clearTimeoutC_def split: option.splits)

lemma resolveOne_settled:
  "map_of (settled (resolveOne l c e)) q =
     (if q = fst (snd e) \<and> map_of (settled c) q = None then Some (Resolved l)
      else map_of (settled c) q)"
  by (auto simp: resolveOne_def settle_def clearTimeoutC_def map_add_def split: option.splits)

lemma filter_delete:
  "filter (\<lambda>x. fst x \<notin> A) (AList.delete k ps) = filter (\<lambda>x. fst x \<notin> insert k A) ps"
  by (induction ps) auto

lemma fold_pending:
  "pendingCommands (foldl (resolveOne l) c es) =
   filter (\<lambda>x. fst x \<notin> fst ` set es) (pendingCommands c)"
proof (induction es arbitrary: c)
  case Nil
  show ?case by simp
next
  case (Cons e es)
  have "filter (\<lambda>x. fst x \<notin> fst ` set es) (AList.delete (fst e) (pendingCommands c)) =
        filter (\<lambda>x. fst x \<notin> fst ` set (e # es)) (pendingCommands c)"
    by (simp add: filter_delete)
  with Cons [of "resolveOne l c e"] show ?case by (simp add: resolveOne_pending)
qed

lemma fold_timers:
  "timers (foldl (resolveOne l) c es) =
   filter (\<lambda>t. fst t \<notin> (snd \<circ> snd) ` set es) (timers c)"
proof (induction es arbitrary: c)
  case Nil
  show ?case by simp
next
  case (Cons e es)
  have "filter (\<lambda>t. fst t \<notin> (snd \<circ> snd) ` set es) (filter (\<lambda>t. fst t \<noteq> snd (snd e)) (timers c)) =
        filter (\<lambda>t. fst t \<notin> (snd \<circ> snd) ` set (e # es)) (timers c)"
    by (induction "timers c") auto
  with Cons [of "resolveOne l c e"] show ?case by (simp add: resolveOne_timers)
qed

lemma fold_settled:
  "map_of (settled (foldl (resolveOne l) c es)) q =
     (if q \<in> (fst \<circ> snd) ` set es \<and> map_of (settled c) q = None then Some (Resolved l)
      else map_of (settled c) q)"
proof (induction es arbitrary: c)
  case Nil
  show ?case by simp
next
  case (Cons e es)
  from Cons [of "resolveOne l c e"] show ?case
    by (auto simp: resolveOne_settled)
qed

lemma resolvePending_pending: "pendingCommands (resolvePending l c) = []"
proof -
  have "filter (\<lambda>x. fst x \<notin> fst ` set (pendingCommands c)) (pendingCommands c) = []"
    by (auto simp: filter_empty_conv)
  then show ?thesis by (simp add: resolvePending_foldl fold_pending)
qed

lemma resolvePending_timers:
  "timers (resolvePending l c) =
   filter (\<lambda>t. fst t \<notin> (snd \<circ> snd) ` set (pendingCommands c)) (timers c)"
  by (simp add: resolvePending_foldl fold_timers)

lemma resolvePending_settled:
  "map_of (settled (resolvePending l c)) q =
     (if q \<in> (fst \<circ> snd) ` set (pendingCommands c) \<and> map_of (settled c) q = None
      then Some (Resolved l) else map_of (settled c) q)"
  by (simp add: resolvePending_foldl fold_settled)

lemma emitC_fields [simp]:
  "pendingCommands (emitC e c) = pendingCommands c"
  "timers (emitC e c) = timers c"
  "settled (emitC e c) = settled c"
  "simulatorVU (emitC e c) = simulatorVU c"
  "simulatorGains (emitC e c) = simulatorGains c"
  "simulatorSends (emitC e c) = simulatorSends c"
  "nextTimer (emitC e c) = nextTimer c"
  "reconnectTimer (emitC e c) = reconnectTimer c"
  "config (emitC e c) = config c"
  "connected (emitC e c) = connected c"
  by (simp_all add: emitC_def)

lemma handleLine_blank: "trim line = [] \<Longrightarrow> handleLine c line = c"
  by (simp add: handleLine_def)

lemma handleLine_resolve:
  "trim line \<noteq> [] \<Longrightarrow>
   \<exists>c'. handleLine c line = resolvePending (trim line) c' \<and> pendingCommands c' = pendingCommands c \<and>
        timers c' = timers c \<and> settled c' = settled c \<and> nextTimer c' = nextTimer c \<and>
        reconnectTimer c' = reconnectTimer c"
  by (cases "groups3 (match True re_vu_line (trim line))") (auto simp: handleLine_def Let_def)

lemma handleLine_pending: "trim line \<noteq> [] \<Longrightarrow> pendingCommands (handleLine c line) = []"
proof -
  assume "trim line \<noteq> []"
  from handleLine_resolve [OF this, of c] obtain c' where
    "handleLine c line = resolvePending (trim line) c'" by blast
  then show ?thesis by (simp add: resolvePending_pending)
qed

lemma handleLine_timers:
  "trim line \<noteq> [] \<Longrightarrow>
   timers (handleLine c line) =
   filter (\<lambda>t. fst t \<notin> (snd \<circ> snd) ` set (pendingCommands c)) (timers c)"
proof -
  assume "trim line \<noteq> []"
  from handleLine_resolve [OF this, of c] obtain c' where
    "handleLine c line = resolvePending (trim line) c'" "pendingCommands c' = pendingCommands c"
    "timers c' = timers c" by blast
  then show ?thesis by (simp only: resolvePending_timers)
qed

lemma handleLine_settled:
  "trim line \<noteq> [] \<Longrightarrow>
   map_of (settled (handleLine c line)) q =
     (if q \<in> (fst \<circ> snd) ` set (pendingCommands c) \<and> map_of (settled c) q = None
      then Some (Resolved (trim line)) else map_of (settled c) q)"
proof -
  assume "trim line \<noteq> []"
  from handleLine_resolve [OF this, of c] obtain c' where
    "handleLine c line = resolvePending (trim line) c'" "pendingCommands c' = pendingCommands c"
    "settled c' = settled c" by blast
  then show ?thesis by (simp only: resolvePending_settled)
qed

lemma filtered_out: "t \<in> T \<Longrightarrow> t \<notin> fst ` set (filter (\<lambda>x. fst x \<notin> T) ts)"
  by auto

lemma foldl_initIN [simp]:
  "events (foldl (initIN rnd) c xs) = events c"
  "connected (foldl (initIN rnd) c xs) = connected c"
  by (induction xs arbitrary: c) (simp_all add: initIN_def)

lemma foldl_initOUT [simp]:
  "events (foldl (initOUT rnd) c xs) = events c"
  "connected (foldl (initOUT rnd) c xs) = connected c"
  by (induction xs arbitrary: c) (simp_all add: initOUT_def)

lemma foldl_initSTIN [simp]:
  "events (foldl initSTIN c xs) = events c"
  "connected (foldl initSTIN c xs) = connected c"
  by (induction xs arbitrary: c) (simp_all add: initSTIN_def)

section \<open>Facts about the level conversions\<close>

lemma powr_below_2000: "(10::real) powr (33 / 10) < 2000"
proof -
  have "((10::real) powr (33 / 10)) ^ 10 = 10 powr 33" by (simp add: powr_power)
  also have "\<dots> = 10 ^ 33" by (simp add: powr_numeral)
  also have "\<dots> < (2000::real) ^ 10" by simp
  finally show ?thesis by (rule power_less_imp_less_base) simp
qed

lemma powr_above_2000: "(2000::real) < 10 powr (67 / 20)"
proof -
  have "((10::real) powr (67 / 20)) ^ 20 = 10 powr 67" by (simp add: powr_power)
  also have "\<dots> = 10 ^ 67" by (simp add: powr_numeral)
  finally have e: "((10::real) powr (67 / 20)) ^ 20 = 10 ^ 67" .
  have "(2000::real) ^ 20 < 10 ^ 67" by simp
  with e have "(2000::real) ^ 20 < (10 powr (67 / 20)) ^ 20" by simp
  then show ?thesis by (rule power_less_imp_less_base) simp
qed

lemma log_2000: "33 / 10 < log 10 2000 \<and> log 10 2000 < 67 / 20"
proof -
  have "(33 / 10 < log 10 2000) = ((10::real) powr (33 / 10) < 2000)"
    by (rule less_log_iff) simp_all
  moreover have "(log 10 2000 < 67 / 20) = ((2000::real) < 10 powr (67 / 20))"
    by (rule log_less_iff) simp_all
  ultimately show ?thesis using powr_below_2000 powr_above_2000 by blast
qed

lemma log_inv_2000: "log 10 (1 / 2000) = - log 10 2000"
  by (simp add: log_divide)

section \<open>Facts about the simulator and the pending commands\<close>

lemma sim_only_refl: "sim_only c c"
  by (simp add: sim_only_def)

lemma sim_handlers:
  "simGetVU u c = Some r \<Longrightarrow> sim_only c (snd r)"
  "simGetGain u c = Some r \<Longrightarrow> sim_only c (snd r)"
  "simSetGain u c = Some r \<Longrightarrow> sim_only c (snd r)"
  "simSetSend u c = Some r \<Longrightarrow> sim_only c (snd r)"
  "simGetSend u c = Some r \<Longrightarrow> sim_only c (snd r)"
  "simSetMute u c = Some r \<Longrightarrow> sim_only c (snd r)"
  "simSetPreset u c = Some r \<Longrightarrow> sim_only c (snd r)"
proof -
  show "simGetVU u c = Some r \<Longrightarrow> sim_only c (snd r)"
    by (cases "groups2 (match False re_get_vu u)")
       (auto simp: simGetVU_def sim_only_def Let_def split: prod.splits)
  show "simGetGain u c = Some r \<Longrightarrow> sim_only c (snd r)"
    by (cases "groups2 (match False re_get_gain u)")
       (auto simp: simGetGain_def sim_only_def Let_def split: prod.splits)
  show "simSetGain u c = Some r \<Longrightarrow> sim_only c (snd r)"
    by (cases "groups3 (match False re_set_gain u)")
       (auto simp: simSetGain_def sim_only_def Let_def split: prod.splits)
  show "simSetSend u c = Some r \<Longrightarrow> sim_only c (snd r)"
    by (cases "groups4 (match False re_set_send u)")
       (auto simp: simSetSend_def sim_only_def Let_def split: prod.splits)
  show "simGetSend u c = Some r \<Longrightarrow> sim_only c (snd r)"
    by (cases "groups3 (match False re_get_send u)")
       (auto simp: simGetSend_def sim_only_def Let_def split: prod.splits)
  show "simSetMute u c = Some r \<Longrightarrow> sim_only c (snd r)"
    by (cases "groups3 (match False re_set_mute u)")
       (auto simp: simSetMute_def sim_only_def Let_def split: prod.splits)
  show "simSetPreset u c = Some r \<Longrightarrow> sim_only c (snd r)"
    by (cases "groups1 (match False re_set_preset u)")
       (auto simp: simSetPreset_def sim_only_def Let_def split: prod.splits)
qed

lemma fall_through:
  "(\<And>r. a = Some r \<Longrightarrow> P r) \<Longrightarrow> (a = None \<Longrightarrow> P d) \<Longrightarrow> P (case a of None \<Rightarrow> d | Some r \<Rightarrow> r)"
  by (cases a) auto

lemma simulateResponse_sim_only: "sim_only c (snd (simulateResponse cmd c))"
  unfolding simulateResponse_def Let_def
  apply (rule fall_through, erule sim_handlers)
  apply (rule fall_through, erule sim_handlers)
  apply (rule fall_through, erule sim_handlers)
  apply (rule fall_through, erule sim_handlers)
  apply (rule fall_through, erule sim_handlers)
  apply (rule fall_through, erule sim_handlers)
  apply (simp add: sim_only_refl)
  apply (rule impI)
  apply (rule fall_through, erule sim_handlers)
  apply (simp add: sim_only_refl)
  done

lemma simulateResponse_fields [simp]:
  "timers (snd (simulateResponse cmd c)) = timers c"
  "pendingCommands (snd (simulateResponse cmd c)) = pendingCommands c"
  "nextTimer (snd (simulateResponse cmd c)) = nextTimer c"
  "reconnectTimer (snd (simulateResponse cmd c)) = reconnectTimer c"
  "config (snd (simulateResponse cmd c)) = config c"
  "settled (snd (simulateResponse cmd c)) = settled c"
  "simulatorVU (snd (simulateResponse cmd c)) = simulatorVU c"
  using simulateResponse_sim_only [of c cmd] by (simp_all add: sim_only_def)

lemma pending_ok_new: "pending_ok (new_client cfg)"
  by (simp add: pending_ok_def new_client_def)

lemma foldl_initIN_run [simp]:
  "timers (foldl (initIN rnd) c xs) = timers c"
  "pendingCommands (foldl (initIN rnd) c xs) = pendingCommands c"
  "nextTimer (foldl (initIN rnd) c xs) = nextTimer c"
  "reconnectTimer (foldl (initIN rnd) c xs) = reconnectTimer c"
  by (induction xs arbitrary: c) (simp_all add: initIN_def)

lemma foldl_initOUT_run [simp]:
  "timers (foldl (initOUT rnd) c xs) = timers c"
  "pendingCommands (foldl (initOUT rnd) c xs) = pendingCommands c"
  "nextTimer (foldl (initOUT rnd) c xs) = nextTimer c"
  "reconnectTimer (foldl (initOUT rnd) c xs) = reconnectTimer c"
  by (induction xs arbitrary: c) (simp_all add: initOUT_def)

lemma foldl_initSTIN_run [simp]:
  "timers (foldl initSTIN c xs) = timers c"
  "pendingCommands (foldl initSTIN c xs) = pendingCommands c"
  "nextTimer (foldl initSTIN c xs) = nextTimer c"
  "reconnectTimer (foldl initSTIN c xs) = reconnectTimer c"
  by (induction xs arbitrary: c) (simp_all add: initSTIN_def)










lemma update_map_of: "map_of (AList.update k v ps) k = Some v"
  by (simp add: update_conv')












section \<open>Facts about the commands and the simulated replies\<close>

lemmas space_defs = isspace_def TAB_def LF_def VT_def FF_def CR_def NBSP_def

lemma show_nat_numch: "list_all isnumch (show_nat n)"
  using show_nat_digits [of n] by (induction "show_nat n") (auto simp: list_all_iff isdigit_isnumch)

lemma toFixed1_shape:
  "\<exists>q d. d < 10 \<and> toFixed1 x = (if x < 0 then ''-'' else '''') @ show_nat q @ ''.'' @ [digit_char d]"
proof -
  have "nat \<lfloor>\<bar>x\<bar> * 10 + 1 / 2\<rfloor> mod 10 < 10" by simp
  then show ?thesis unfolding toFixed1_def Let_def by blast
qed

lemma toFixed1_numch: "list_all isnumch (toFixed1 x)"
proof -
  from toFixed1_shape [of x] obtain q d where d: "d < 10"
    and e: "toFixed1 x = (if x < 0 then ''-'' else '''') @ show_nat q @ ''.'' @ [digit_char d]" by blast
  have "isnumch CHR ''-''" "isnumch CHR ''.''" by (simp_all add: isnumch_def)
  moreover have "isnumch (digit_char d)" using d by (simp add: isdigit_digit_char isdigit_isnumch)
  ultimately show ?thesis unfolding e using show_nat_numch [of q] by simp
qed

lemma toFixed1_nonempty: "toFixed1 x \<noteq> []"
  by (simp add: toFixed1_def Let_def)

lemma last_toFixed1: "isdigit (last (toFixed1 x))"
proof -
  from toFixed1_shape [of x] obtain q d where d: "d < 10"
    and e: "toFixed1 x = (if x < 0 then ''-'' else '''') @ show_nat q @ ''.'' @ [digit_char d]" by blast
  show ?thesis unfolding e using d by (simp add: isdigit_digit_char)
qed

lemma last_show_nat: "isdigit (last (show_nat n))"
  using show_nat_digits [of n] show_nat_nonempty [of n]
  by (simp add: list_all_iff)

lemma isdigit_not_space: "isdigit c \<Longrightarrow> \<not> isspace c"
  by (simp add: isdigit_isnumch isnumch_not_space)

lemma upper_numch: "list_all isnumch s \<Longrightarrow> toUpperCase s = s"
  unfolding toUpperCase_def list_all_iff by (rule map_idI) (simp add: isnumch_upper)

lemma upper_show_nat [simp]: "toUpperCase (show_nat n) = show_nat n"
  by (rule upper_numch) (rule show_nat_numch)

lemma upper_toFixed1 [simp]: "toUpperCase (toFixed1 x) = toFixed1 x"
  by (rule upper_numch) (rule toFixed1_numch)

lemma upper_append [simp]: "toUpperCase (a @ b) = toUpperCase a @ toUpperCase b"
  by (simp add: toUpperCase_def)

lemma upper_Cons: "toUpperCase (c # s) = toUpperChar c # toUpperCase s"
  by (simp add: toUpperCase_def)

lemma upper_Nil [simp]: "toUpperCase [] = []"
  by (simp add: toUpperCase_def)

lemma trim_id: "s \<noteq> [] \<Longrightarrow> \<not> isspace (hd s) \<Longrightarrow> \<not> isspace (last s) \<Longrightarrow> trim s = s"
proof -
  assume ne: "s \<noteq> []" and h: "\<not> isspace (hd s)" and l: "\<not> isspace (last s)"
  from ne h have a: "dropWhile isspace s = s" by (cases s) simp_all
  from ne l have "dropWhile isspace (rev s) = rev s" by (cases "rev s") (simp_all add: last_rev hd_rev)
  with a show ?thesis by (simp add: trim_def)
qed

lemma upper_channel [simp]: "toUpperCase (channel_str ch) = channel_str ch"
  by (cases ch) (simp_all add: upper_Cons toUpperChar_def)

lemma upper_source [simp]: "toUpperCase (source_str src) = source_str src"
  by (cases src) (simp_all add: upper_Cons toUpperChar_def)

lemma command_upper: "toUpperCase (command a) = command a"
  by (cases a) (simp_all add: upper_Cons toUpperChar_def)

lemma last_append_show_nat: "last (s @ show_nat n) = last (show_nat n)"
  by (simp add: show_nat_nonempty)

lemma last_append_toFixed1: "last (s @ toFixed1 x) = last (toFixed1 x)"
  by (simp add: toFixed1_nonempty)

lemma command_trim: "trim (command a) = command a"
proof (rule trim_id)
  show "command a \<noteq> []" by (cases a) simp_all
  show "\<not> isspace (hd (command a))" by (cases a) (simp_all add: space_defs)
  show "\<not> isspace (last (command a))"
  proof (cases a)
    case (SetGain ch n dB)
    have "last (command a) = last (toFixed1 (max (- 60) (min 10 dB)))"
      unfolding SetGain command.simps by (simp only: append_assoc [symmetric] last_append_toFixed1)
    then show ?thesis using last_toFixed1 isdigit_not_space by simp
  next
    case (GetGain ch n)
    have "last (command a) = last (show_nat n)"
      unfolding GetGain command.simps by (simp only: append_assoc [symmetric] last_append_show_nat)
    then show ?thesis using last_show_nat isdigit_not_space by simp
  next
    case (SetSend src n bus dB)
    have "last (command a) = last (toFixed1 (max (- 60) (min 10 dB)))"
      unfolding SetSend command.simps by (simp only: append_assoc [symmetric] last_append_toFixed1)
    then show ?thesis using last_toFixed1 isdigit_not_space by simp
  next
    case (GetSend src n bus)
    have "last (command a) = last (show_nat bus)"
      unfolding GetSend command.simps by (simp only: append_assoc [symmetric] last_append_show_nat)
    then show ?thesis using last_show_nat isdigit_not_space by simp
  next
    case (SetMute ch n muted)
    then show ?thesis by (simp add: space_defs)
  next
    case (GetVU ch n)
    have "last (command a) = last (show_nat n)"
      unfolding GetVU command.simps by (simp only: append_assoc [symmetric] last_append_show_nat)
    then show ?thesis using last_show_nat isdigit_not_space by simp
  next
    case (SetPreset n)
    have "last (command a) = last (show_nat n)"
      unfolding SetPreset command.simps by (simp only: append_assoc [symmetric] last_append_show_nat)
    then show ?thesis using last_show_nat isdigit_not_space by simp
  next
    case GetPreset
    then show ?thesis by (simp add: space_defs)
  qed
qed

lemma match_skip_numch:
  assumes "list_all isnumch d" and "\<not> isnumch l0"
  shows "match False ((cap, Lit (l0 # l)) # p) (d @ s) = match False ((cap, Lit (l0 # l)) # p) s"
proof (rule match_skip)
  from assms show "\<forall>c\<in>set d. if False then toUpperChar l0 \<noteq> toUpperChar c else l0 \<noteq> c"
    by (auto simp: list_all_iff)
qed

lemma match_none_numch:
  assumes "list_all isnumch d" and "\<not> isnumch l0"
  shows "match False ((cap, Lit (l0 # l)) # p) d = None"
proof -
  have "match False ((cap, Lit (l0 # l)) # p) (d @ []) = match False ((cap, Lit (l0 # l)) # p) []"
    using assms by (rule match_skip_numch)
  then show ?thesis by (simp add: matchAt_Lit)
qed

lemmas m_simps = matchAt_Lit matchAt_Alt_Cons matchAt_Alt_Nil matchAt_Nil matchAt_Plus_end
  in_class_Digit in_class_NumCh show_nat_digits show_nat_nonempty toFixed1_numch toFixed1_nonempty
  match_skip_numch match_none_numch show_nat_numch isnumch_def isdigit_def


lemma get_gain_no_vu: "match False re_get_vu (command (GetGain ch n)) = None"
  by (cases ch) (simp_all add: re_get_vu_def m_simps)

lemma get_gain_match:
  "match False re_get_gain (command (GetGain ch n)) = Some [channel_str ch, show_nat n]"
  by (cases ch) (simp_all add: re_get_gain_def m_simps)

lemma set_gain_no_vu: "match False re_get_vu (command (SetGain ch n dB)) = None"
  by (cases ch) (simp_all add: re_get_vu_def m_simps)

lemma set_gain_no_get: "match False re_get_gain (command (SetGain ch n dB)) = None"
  by (cases ch) (simp_all add: re_get_gain_def m_simps)

lemma value_tail:
  "matchAt False [(False, Lit '' = ''), (True, Plus NumCh)] ('' = '' @ toFixed1 x) = Some [toFixed1 x]"
  by (simp add: m_simps)

lemma number_value_tail:
  "matchAt False [(True, Plus Digit), (False, Lit '' = ''), (True, Plus NumCh)]
     (show_nat n @ '' = '' @ toFixed1 x) = Some [show_nat n, toFixed1 x]"
proof -
  have a: "list_all (in_class Digit) (show_nat n)" by (simp add: in_class_Digit show_nat_digits)
  have b: "'' = '' @ toFixed1 x = [] \<or> \<not> in_class Digit (hd ('' = '' @ toFixed1 x))"
    by (simp add: isdigit_def)
  from matchAt_Plus [OF a show_nat_nonempty b value_tail, of True] show ?thesis by simp
qed

lemma set_gain_match:
  "match False re_set_gain (command (SetGain ch n dB)) =
   Some [channel_str ch, show_nat n, toFixed1 (max (- 60) (min 10 dB))]"
  using number_value_tail [of n "max (- 60) (min 10 dB)"]
  by (cases ch) (simp_all add: re_set_gain_def matchAt_Lit matchAt_Alt_Cons matchAt_Alt_Nil)


lemma sim_get_gain:
  "simulateResponse (command (GetGain ch n)) c =
     (''GAIN '' @ channel_str ch @ '' '' @ show_nat n @ '' = '' @
        toFixed1n (case map_of (simulatorGains c) (channel_str ch @ '':'' @ show_nat n) of
                     None \<Rightarrow> Num (- 10) | Some v \<Rightarrow> v), c)"
  unfolding simulateResponse_def Let_def command_upper command_trim
  by (simp add: simGetVU_def simGetGain_def get_gain_no_vu get_gain_match del: command.simps)

lemma sim_set_gain:
  "simulateResponse (command (SetGain ch n dB)) c =
     (''OK GAIN '' @ channel_str ch @ '' '' @ show_nat n @ '' = '' @ toFixed1 (max (- 60) (min 10 dB)),
      c\<lparr>simulatorGains :=
           AList.update (channel_str ch @ '':'' @ show_nat n) (Num (round1 (max (- 60) (min 10 dB))))
             (simulatorGains c)\<rparr>)"
  unfolding simulateResponse_def Let_def command_upper command_trim
  by (simp add: simGetVU_def simGetGain_def simSetGain_def set_gain_no_vu set_gain_no_get
      set_gain_match parseFloat_toFixed1 del: command.simps)

lemma numberOf_value: "numberOf (pre @ '' = '' @ toFixed1 v) = Num (round1 v)"
proof -
  have "\<not> isnumch CHR '' ''" by (simp add: isnumch_def isdigit_def)
  from number_suffix_match [where v = "toFixed1 v" and c = "CHR '' ''" and pre = "pre @ '' =''",
      OF toFixed1_nonempty toFixed1_numch this]
  have "match False re_number_suffix (pre @ '' = '' @ toFixed1 v) = Some [toFixed1 v]" by simp
  then show ?thesis by (simp add: numberOf_def parseFloat_toFixed1)
qed


lemma getGain_simulated:
  "numberOf (simulatedReply (command (GetGain ch n)) c) =
     (case (case map_of (simulatorGains c) (channel_str ch @ '':'' @ show_nat n) of
              None \<Rightarrow> Num (- 10) | Some v \<Rightarrow> v) of
        NaN \<Rightarrow> numberOf (''GAIN '' @ channel_str ch @ '' '' @ show_nat n @ '' = NaN'')
      | Num g \<Rightarrow> Num (round1 g))"
proof -
  let ?v = "case map_of (simulatorGains c) (channel_str ch @ '':'' @ show_nat n) of
              None \<Rightarrow> Num (- 10) | Some v \<Rightarrow> v"
  have r: "simulatedReply (command (GetGain ch n)) c =
      (''GAIN '' @ channel_str ch @ '' '' @ show_nat n) @ '' = '' @ toFixed1n ?v"
    by (simp add: simulatedReply_def sim_get_gain del: command.simps)
  show ?thesis
  proof (cases ?v)
    case NaN
    with r show ?thesis by (simp add: toFixed1n_def)
  next
    case (Num g)
    with r have "simulatedReply (command (GetGain ch n)) c =
      (''GAIN '' @ channel_str ch @ '' '' @ show_nat n) @ '' = '' @ toFixed1 g"
      by (simp add: toFixed1n_def)
    then have "numberOf (simulatedReply (command (GetGain ch n)) c) = Num (round1 g)"
      by (simp only: numberOf_value)
    with Num show ?thesis by simp
  qed
qed

lemma setGain_stored:
  assumes "simulatorMode (config c)"
  shows "map_of (simulatorGains (snd (sendRaw (command (SetGain ch n dB)) k rnd c)))
           (channel_str ch @ '':'' @ show_nat n) =
         Some (Num (round1 (max (- 60) (min 10 dB))))"
  using assms
  by (simp add: sendRaw_def Let_def setTimeoutC_def split_beta sim_set_gain update_map_of
      del: command.simps)

lemma setGain_getGain_simulated:
  assumes "simulatorMode (config c)"
  shows "numberOf (simulatedReply (command (GetGain ch n))
            (snd (sendRaw (command (SetGain ch n dB)) k rnd c))) =
         Num (round1 (round1 (max (- 60) (min 10 dB))))"
  by (simp only: getGain_simulated setGain_stored [OF assms]) simp

lemma clamp_range: "- 60 \<le> max (- 60) (min 10 dB) \<and> max (- 60) (min 10 dB) \<le> (10::real)"
  by auto




















lemma foldl_init_config [simp]:
  "config (foldl (initIN rnd) c xs) = config c"
  "config (foldl (initOUT rnd) c xs) = config c"
  "config (foldl initSTIN c xs) = config c"
  by (induction xs arbitrary: c) (simp_all add: initIN_def initOUT_def initSTIN_def)











section \<open>Facts about stopping the watchdog\<close>

text \<open>
  What holds of \<open>_setState\<close> and \<open>stop()\<close> in every state: \<open>stateChange\<close> is emitted
  exactly when the state changes, \<open>stop()\<close> leaves the state \<open>stopped\<close>, the timer
  field empty, the timeout that field named unscheduled and the next-attempt
  time cleared, and repeated \<open>stop()\<close> calls emit nothing more.
\<close>

lemma stop_effects:
  "emitted (setState s w) = emitted w @ (if state w \<noteq> s then [StateChange s (state w)] else []) \<and>
   (\<forall>tr new prev. StateChange new prev \<in> set (emitted (run tr new_watchdog)) \<longrightarrow> new \<noteq> prev) \<and>
   state (stop w) = Stopped \<and>
   timer (stop w) = None \<and>
   (\<forall>h. timer w = Some h \<longrightarrow> h \<notin> fst ` set (timeouts (stop w))) \<and>
   nextAttemptAt (stop w) = None \<and>
   emitted (stop w) =
     emitted w @ (if state w \<noteq> Stopped then [StateChange Stopped (state w)] else []) \<and>
   (\<forall>n. emitted ((stop ^^ Suc n) w) = emitted (stop w))"
proof -
  have 1: "emitted (setState s w) =
           emitted w @ (if state w \<noteq> s then [StateChange s (state w)] else [])"
    by (simp add: setState_def emit_def Let_def)
  have 2: "\<forall>tr new prev. StateChange new prev \<in> set (emitted (run tr new_watchdog)) \<longrightarrow> new \<noteq> prev"
  proof (intro allI impI)
    fix tr new prev
    assume m: "StateChange new prev \<in> set (emitted (run tr new_watchdog))"
    have "list_all changes_only (emitted (run tr new_watchdog))"
      by (rule run_changes_only) (simp add: new_watchdog_def)
    with m have "changes_only (StateChange new prev)" by (simp add: list_all_iff)
    then show "new \<noteq> prev" by (simp add: changes_only_def)
  qed
  have 3: "state (stop w) = Stopped"
    by (simp add: stop_def setState_def emit_def Let_def)
  have 4: "timer (stop w) = None"
    by (simp add: stop_def setState_def emit_def clearTimer_def clearTimeout_def Let_def
        split: option.splits)
  have 5: "\<forall>h. timer w = Some h \<longrightarrow> h \<notin> fst ` set (timeouts (stop w))"
    by (auto simp: stop_def setState_def emit_def clearTimer_def clearTimeout_def Let_def)
  have 6: "nextAttemptAt (stop w) = None"
    by (simp add: stop_def setState_def emit_def Let_def)
  have 7: "emitted (stop w) =
           emitted w @ (if state w \<noteq> Stopped then [StateChange Stopped (state w)] else [])"
    by (simp add: stop_def setState_def emit_def clearTimer_def clearTimeout_def Let_def
        split: option.splits)
  have 8: "\<forall>n. emitted ((stop ^^ Suc n) w) = emitted (stop w)"
    by (simp only: stop_funpow) simp
  from 1 2 3 4 5 6 7 8 show ?thesis by blast
qed

section \<open>Claims\<close>

text \<open>
  C9. For every subnet prefix \<open>s\<close>, \<open>getSubnetHosts s\<close> has exactly 254 entries; the
  \<open>i\<close>-th entry (counting from 1) is \<open>s\<close>, a dot and the decimal numeral of \<open>i\<close>, so the
  first entry has suffix 1 and the last has suffix 254; the network address
  \<open>s.0\<close> and the broadcast address \<open>s.255\<close> are not in the list.
\<close>

theorem getSubnetHosts_254:
  "length (getSubnetHosts s) = 254 \<and>
   (\<forall>i. 1 \<le> i \<and> i \<le> 254 \<longrightarrow> getSubnetHosts s ! (i - 1) = s @ ''.'' @ show_nat i) \<and>
   hd (getSubnetHosts s) = s @ ''.1'' \<and>
   last (getSubnetHosts s) = s @ ''.254'' \<and>
   s @ ''.0'' \<notin> set (getSubnetHosts s) \<and>
   s @ ''.255'' \<notin> set (getSubnetHosts s)"
proof -
  have len: "length (getSubnetHosts s) = 254" by (simp add: getSubnetHosts_def)
  have nth: "\<forall>i. 1 \<le> i \<and> i \<le> 254 \<longrightarrow> getSubnetHosts s ! (i - 1) = s @ ''.'' @ show_nat i"
    by (auto simp: getSubnetHosts_def)
  have s1: "show_nat 1 = ''1''" by (simp add: show_nat.simps digit_char_def)
  have s254: "show_nat 254 = ''254''" by (simp add: show_nat.simps digit_char_def)
  from len have ne: "getSubnetHosts s \<noteq> []" by auto
  have f: "getSubnetHosts s ! 0 = s @ ''.'' @ show_nat 1"
    by (simp add: getSubnetHosts_def)
  have g: "getSubnetHosts s ! 253 = s @ ''.'' @ show_nat 254"
    by (simp add: getSubnetHosts_def)
  have h: "hd (getSubnetHosts s) = s @ ''.1''"
    using ne f s1 by (simp add: hd_conv_nth)
  have l: "last (getSubnetHosts s) = s @ ''.254''"
    using ne len g s254 by (simp add: last_conv_nth)
  have n0: "s @ ''.0'' \<notin> set (getSubnetHosts s)"
  proof
    assume "s @ ''.0'' \<in> set (getSubnetHosts s)"
    then obtain i where "i < 254" and "show_nat (i + 1) = ''0''"
      by (auto simp: getSubnetHosts_def)
    then have "show_nat (i + 1) = show_nat 0" by (simp add: show_nat_0)
    then have "i + 1 = 0" by (rule show_nat_inj)
    then show False by simp
  qed
  have n255: "s @ ''.255'' \<notin> set (getSubnetHosts s)"
  proof
    assume "s @ ''.255'' \<in> set (getSubnetHosts s)"
    then obtain i where i: "i < 254" and "show_nat (i + 1) = ''255''"
      by (auto simp: getSubnetHosts_def)
    then have "show_nat (i + 1) = show_nat 255" by (simp add: show_nat_255)
    then have "i + 1 = 255" by (rule show_nat_inj)
    with i show False by simp
  qed
  from len nth h l n0 n255 show ?thesis by blast
qed

theorem getSubnetHosts_254_witness:
  "(1::nat) \<le> 7 \<and> (7::nat) \<le> 254 \<and> getSubnetHosts ''10.0.0'' ! (7 - 1) = ''10.0.0.7''"
proof -
  have s7: "show_nat 7 = ''7''" by (simp add: show_nat.simps digit_char_def)
  have r: "(1::nat) \<le> 7 \<and> (7::nat) \<le> 254" by simp
  from getSubnetHosts_254 [of "''10.0.0''"]
  have "\<forall>i. 1 \<le> i \<and> i \<le> 254 \<longrightarrow>
          getSubnetHosts ''10.0.0'' ! (i - 1) = ''10.0.0'' @ ''.'' @ show_nat i"
    by blast
  with r have "getSubnetHosts ''10.0.0'' ! (7 - 1) = ''10.0.0'' @ ''.'' @ show_nat 7"
    by blast
  with s7 r show ?thesis by simp
qed

text \<open>
  C5. The claim fails on the code: \<open>stop()\<close> does not cancel every pending
  timeout. It clears the one timeout named by the field \<^verbatim>\<open>timer\<close>, and
  \<open>_scheduleNext\<close> overwrites that field without clearing the timeout it named.
  After a \<open>stop()\<close> and a \<open>start()\<close> during a suspended attempt that then fails,
  two timeouts are scheduled; the next \<open>stop()\<close> clears the later one and leaves
  the 30000 ms timeout of the \<open>start()\<close> scheduled, in state \<open>stopped\<close> with the
  timer field empty.
\<close>

theorem stop_leaves_timeout:
  "timeouts
     (run [(0, Configure), (0, Start), (30000, TimerFires 0 False), (30010, Stop),
           (30020, Start), (30030, ReconnectSettles (Returned False)), (30040, Stop)]
        new_watchdog) = [(1, 30000)] \<and>
   state
     (run [(0, Configure), (0, Start), (30000, TimerFires 0 False), (30010, Stop),
           (30020, Start), (30030, ReconnectSettles (Returned False)), (30040, Stop)]
        new_watchdog) = Stopped \<and>
   timer
     (run [(0, Configure), (0, Start), (30000, TimerFires 0 False), (30010, Stop),
           (30020, Start), (30030, ReconnectSettles (Returned False)), (30040, Stop)]
        new_watchdog) = None"
  by (simp add: wd_defs wd_consts)

text \<open>
  C3, as amended. The backoff interval starts at 30000 ms and stays between
  30000 and 300000 ms in every reachable state. A failed attempt that settles
  while the watchdog is not stopped replaces it by the minimum of its double
  and 300000: after one failure it is 60000, after two 120000, after four or
  more 300000. \<open>onConnected\<close> sets it to 30000, and so does every \<open>start()\<close> that
  takes effect, that is, one called on a configured watchdog whose state is
  neither \<open>watching\<close> nor \<open>connecting\<close>. In a reachable state the only
  steps that lower it are \<open>start()\<close>, \<open>onConnected()\<close>, and an attempt that finds
  the connection up or reconnects (both call \<open>onConnected\<close>); a failed retry
  never lowers it.
\<close>

theorem backoff_interval:
  "currentIntervalMs new_watchdog = 30000 \<and>
   (\<forall>tr. 30000 \<le> currentIntervalMs (run tr new_watchdog) \<and>
         currentIntervalMs (run tr new_watchdog) \<le> 300000) \<and>
   (\<forall>now r w. \<not> stopped w \<and> 0 < inflight w \<and> r \<noteq> Returned True \<longrightarrow>
      currentIntervalMs (step now (ReconnectSettles r) w) = min (2 * currentIntervalMs w) 300000) \<and>
   (\<forall>t t' tm k.
      currentIntervalMs (run ((t, Configure) # (t', Start) # failures tm k) new_watchdog) =
      min (30000 * 2 ^ k) 300000) \<and>
   (\<forall>t t' tm.
      currentIntervalMs (run ((t, Configure) # (t', Start) # failures tm 1) new_watchdog) = 60000 \<and>
      currentIntervalMs (run ((t, Configure) # (t', Start) # failures tm 2) new_watchdog) = 120000) \<and>
   (\<forall>t t' tm k. 4 \<le> k \<longrightarrow>
      currentIntervalMs (run ((t, Configure) # (t', Start) # failures tm k) new_watchdog) = 300000) \<and>
   (\<forall>w. currentIntervalMs (onConnected w) = 30000) \<and>
   (\<forall>now w. state w \<noteq> Watching \<and> state w \<noteq> Connecting \<and> reconnectFn w \<and> isConnectedFn w \<longrightarrow>
      currentIntervalMs (start now w) = 30000 \<and>
      currentIntervalMs (step now Start w) = 30000) \<and>
   (\<forall>tr now i.
      currentIntervalMs (step now i (run tr new_watchdog)) < currentIntervalMs (run tr new_watchdog) \<longrightarrow>
      i = Start \<or> i = OnConnected \<or> (\<exists>h. i = TimerFires h True) \<or>
      i = ReconnectSettles (Returned True))"
proof -
  have init: "30000 \<le> currentIntervalMs new_watchdog" "currentIntervalMs new_watchdog \<le> 300000"
    by (simp_all add: wd_consts)
  have 1: "currentIntervalMs new_watchdog = 30000" by (simp add: wd_consts)
  have 2: "\<forall>tr. 30000 \<le> currentIntervalMs (run tr new_watchdog) \<and>
         currentIntervalMs (run tr new_watchdog) \<le> 300000"
    using run_interval_bounds [OF init] by blast
  have 3: "\<forall>now r w. \<not> stopped w \<and> 0 < inflight w \<and> r \<noteq> Returned True \<longrightarrow>
      currentIntervalMs (step now (ReconnectSettles r) w) = min (2 * currentIntervalMs w) 300000"
    by (auto simp: wd_defs wd_consts Let_def mult.commute split: outcome.splits)
  have 4: "\<forall>t t' tm k.
      currentIntervalMs (run ((t, Configure) # (t', Start) # failures tm k) new_watchdog) =
      min (30000 * 2 ^ k) 300000"
    using retrying_failures by (simp add: retrying_def)
  have 5: "\<forall>t t' tm.
      currentIntervalMs (run ((t, Configure) # (t', Start) # failures tm 1) new_watchdog) = 60000 \<and>
      currentIntervalMs (run ((t, Configure) # (t', Start) # failures tm 2) new_watchdog) = 120000"
    by (simp only: 4) simp
  have 6: "\<forall>t t' tm k. 4 \<le> k \<longrightarrow>
      currentIntervalMs (run ((t, Configure) # (t', Start) # failures tm k) new_watchdog) = 300000"
  proof (intro allI impI)
    fix t t' tm and k :: nat
    assume "4 \<le> k"
    then have "(2::nat) ^ 4 \<le> 2 ^ k" by (intro power_increasing) simp_all
    then have "(300000::nat) \<le> 30000 * 2 ^ k" by simp
    then have "min (30000 * 2 ^ k) (300000::nat) = 300000" by (rule min_absorb2)
    with 4 show "currentIntervalMs (run ((t, Configure) # (t', Start) # failures tm k) new_watchdog) = 300000"
      by metis
  qed
  have 7: "\<forall>w. currentIntervalMs (onConnected w) = 30000"
    by (simp add: onConnected_def setState_def emit_def Let_def wd_consts)
  have 8: "\<forall>tr now i.
      currentIntervalMs (step now i (run tr new_watchdog)) < currentIntervalMs (run tr new_watchdog) \<longrightarrow>
      i = Start \<or> i = OnConnected \<or> (\<exists>h. i = TimerFires h True) \<or>
      i = ReconnectSettles (Returned True)"
    using step_lowers_interval 2 by blast
  have 9: "\<forall>now w. state w \<noteq> Watching \<and> state w \<noteq> Connecting \<and> reconnectFn w \<and> isConnectedFn w \<longrightarrow>
      currentIntervalMs (start now w) = 30000 \<and>
      currentIntervalMs (step now Start w) = 30000"
    by (simp add: step_def start_def scheduleNext_def setState_def emit_def Let_def wd_consts)
  from 1 2 3 4 5 6 7 8 9 show ?thesis by blast
qed

theorem backoff_interval_witness:
  "\<not> stopped (run [(0, Configure), (0, Start), (30000, TimerFires 0 False)] new_watchdog) \<and>
   0 < inflight (run [(0, Configure), (0, Start), (30000, TimerFires 0 False)] new_watchdog) \<and>
   Returned False \<noteq> Returned True \<and>
   currentIntervalMs (step 30010 (ReconnectSettles (Returned False))
     (run [(0, Configure), (0, Start), (30000, TimerFires 0 False)] new_watchdog)) = 60000 \<and>
   (4::nat) \<le> 6 \<and>
   currentIntervalMs
     (run ((0, Configure) # (0, Start) # failures (\<lambda>j. 30000 * 2 ^ j) 6) new_watchdog) = 300000 \<and>
   state (run [(0, Configure), (0, Start), (30000, TimerFires 0 False),
             (30010, ReconnectSettles (Returned False)), (90010, TimerFires 1 False),
             (90020, ReconnectSettles (Returned False)), (95000, Stop)]
            new_watchdog) = Stopped \<and>
   reconnectFn (run [(0, Configure), (0, Start), (30000, TimerFires 0 False),
             (30010, ReconnectSettles (Returned False)), (90010, TimerFires 1 False),
             (90020, ReconnectSettles (Returned False)), (95000, Stop)]
            new_watchdog) \<and>
   isConnectedFn (run [(0, Configure), (0, Start), (30000, TimerFires 0 False),
             (30010, ReconnectSettles (Returned False)), (90010, TimerFires 1 False),
             (90020, ReconnectSettles (Returned False)), (95000, Stop)]
            new_watchdog) \<and>
   currentIntervalMs
     (run [(0, Configure), (0, Start), (30000, TimerFires 0 False),
             (30010, ReconnectSettles (Returned False)), (90010, TimerFires 1 False),
             (90020, ReconnectSettles (Returned False)), (95000, Stop)]
        new_watchdog) = 120000 \<and>
   currentIntervalMs
     (start 96000
        (run [(0, Configure), (0, Start), (30000, TimerFires 0 False),
             (30010, ReconnectSettles (Returned False)), (90010, TimerFires 1 False),
             (90020, ReconnectSettles (Returned False)), (95000, Stop)]
           new_watchdog)) = 30000"
proof -
  let ?w = "run [(0, Configure), (0, Start), (30000, TimerFires 0 False)] new_watchdog"
  have h: "\<not> stopped ?w \<and> 0 < inflight ?w \<and> Returned False \<noteq> Returned True"
    by (simp add: wd_defs wd_consts)
  have i: "currentIntervalMs ?w = 30000"
    by (simp add: wd_defs wd_consts)
  note f3 = backoff_interval [THEN conjunct2, THEN conjunct2, THEN conjunct1]
  note f6 = backoff_interval [THEN conjunct2, THEN conjunct2, THEN conjunct2, THEN conjunct2,
    THEN conjunct2, THEN conjunct1]
  note f8 = backoff_interval [THEN conjunct2, THEN conjunct2, THEN conjunct2, THEN conjunct2,
    THEN conjunct2, THEN conjunct2, THEN conjunct2, THEN conjunct1]
  from f3 h
  have "currentIntervalMs (step 30010 (ReconnectSettles (Returned False)) ?w) =
        min (2 * currentIntervalMs ?w) 300000"
    by blast
  with i have a: "currentIntervalMs (step 30010 (ReconnectSettles (Returned False)) ?w) = 60000"
    by simp
  have k: "(4::nat) \<le> 6" by simp
  from f6 k
  have b: "currentIntervalMs
     (run ((0, Configure) # (0, Start) # failures (\<lambda>j. 30000 * 2 ^ j) 6) new_watchdog) = 300000"
    by blast
  let ?v = "run [(0, Configure), (0, Start), (30000, TimerFires 0 False),
             (30010, ReconnectSettles (Returned False)), (90010, TimerFires 1 False),
             (90020, ReconnectSettles (Returned False)), (95000, Stop)]
              new_watchdog"
  have v: "state ?v = Stopped \<and> reconnectFn ?v \<and> isConnectedFn ?v \<and> currentIntervalMs ?v = 120000"
    by (simp add: wd_defs wd_consts)
  then have "state ?v \<noteq> Watching \<and> state ?v \<noteq> Connecting \<and> reconnectFn ?v \<and> isConnectedFn ?v"
    by simp
  with f8 have c: "currentIntervalMs (start 96000 ?v) = 30000"
    by blast
  from h a k b v c show ?thesis by blast
qed

text \<open>
  C3 as stated fails: the interval is also reset by \<open>start()\<close>. After one
  failed attempt the interval is 60000; \<open>stop()\<close> and \<open>start()\<close> bring it back to
  30000 without any reconnection (the attempt counter is still 1, which
  \<open>onConnected\<close> would have cleared).
\<close>

theorem backoff_reset_by_start:
  "currentIntervalMs
     (run [(0, Configure), (0, Start), (30000, TimerFires 0 False),
           (30010, ReconnectSettles (Returned False)), (40000, Stop)] new_watchdog) = 60000 \<and>
   currentIntervalMs
     (run [(0, Configure), (0, Start), (30000, TimerFires 0 False),
           (30010, ReconnectSettles (Returned False)), (40000, Stop), (50000, Start)]
        new_watchdog) = 30000 \<and>
   attempts
     (run [(0, Configure), (0, Start), (30000, TimerFires 0 False),
           (30010, ReconnectSettles (Returned False)), (40000, Stop), (50000, Start)]
        new_watchdog) = 1"
  by (simp add: wd_defs wd_consts)

text \<open>
  C4. The claim fails on the code. A \<open>stop()\<close> followed by a \<open>start()\<close> while an
  attempt is suspended at its \<^verbatim>\<open>await\<close> schedules a timeout; when the attempt
  then fails, \<open>_onAttemptFailed\<close> sees \<open>stopped = false\<close> and \<open>_scheduleNext\<close>
  schedules a second timeout without clearing the first. Two timeouts are
  scheduled at once, and when both have fired two attempts are in flight.
\<close>

theorem two_timeouts_scheduled:
  "timeouts
     (run [(0, Configure), (0, Start), (30000, TimerFires 0 False), (30010, Stop),
           (30020, Start), (30030, ReconnectSettles (Returned False))] new_watchdog) =
     [(1, 30000), (2, 60000)] \<and>
   inflight
     (run [(0, Configure), (0, Start), (30000, TimerFires 0 False), (30010, Stop),
           (30020, Start), (30030, ReconnectSettles (Returned False)),
           (60020, TimerFires 1 False), (90030, TimerFires 2 False)] new_watchdog) = 2"
  by (simp add: wd_defs wd_consts)

text \<open>
  C1, as amended. A blank response line changes nothing. Every other line
  resolves every command that is pending when it arrives, not only the oldest
  one: after the line the pending map is empty, the timeout of each command
  that was pending is no longer scheduled, each of their promises that was
  not settled yet is resolved with the trimmed line, and no other promise
  changes. With a single pending command this is the match with the oldest
  pending command.
\<close>
theorem response_resolves_all_pending:
  "(trim line = [] \<longrightarrow> handleLine c line = c) \<and>
   (trim line \<noteq> [] \<longrightarrow>
      pendingCommands (handleLine c line) = [] \<and>
      (\<forall>key p t. (key, p, t) \<in> set (pendingCommands c) \<longrightarrow>
         t \<notin> fst ` set (timers (handleLine c line)) \<and>
         (map_of (settled c) p = None \<longrightarrow>
            map_of (settled (handleLine c line)) p = Some (Resolved (trim line)))) \<and>
      (\<forall>q. q \<notin> (fst \<circ> snd) ` set (pendingCommands c) \<longrightarrow>
         map_of (settled (handleLine c line)) q = map_of (settled c) q))"
proof (cases "trim line = []")
  case True
  then show ?thesis by (simp add: handleLine_blank)
next
  case False
  have a: "pendingCommands (handleLine c line) = []" using False by (rule handleLine_pending)
  have b: "\<forall>key p t. (key, p, t) \<in> set (pendingCommands c) \<longrightarrow>
         t \<notin> fst ` set (timers (handleLine c line)) \<and>
         (map_of (settled c) p = None \<longrightarrow>
            map_of (settled (handleLine c line)) p = Some (Resolved (trim line)))"
  proof (intro allI impI)
    fix key p t
    assume m: "(key, p, t) \<in> set (pendingCommands c)"
    then have t: "t \<in> (snd \<circ> snd) ` set (pendingCommands c)" and p: "p \<in> (fst \<circ> snd) ` set (pendingCommands c)"
      by force+
    from t have 1: "t \<notin> fst ` set (timers (handleLine c line))"
      unfolding handleLine_timers [OF False] by (rule filtered_out)
    from p have 2: "map_of (settled c) p = None \<longrightarrow>
            map_of (settled (handleLine c line)) p = Some (Resolved (trim line))"
      unfolding handleLine_settled [OF False] by simp
    from 1 2 show "t \<notin> fst ` set (timers (handleLine c line)) \<and>
         (map_of (settled c) p = None \<longrightarrow>
            map_of (settled (handleLine c line)) p = Some (Resolved (trim line)))" by blast
  qed
  have d: "\<forall>q. q \<notin> (fst \<circ> snd) ` set (pendingCommands c) \<longrightarrow>
         map_of (settled (handleLine c line)) q = map_of (settled c) q"
    unfolding handleLine_settled [OF False] by simp
  from False a b d show ?thesis by blast
qed

theorem response_resolves_all_pending_witness:
  "trim ''GAIN IN 1 = -10.0'' \<noteq> [] \<and>
   (''b'', 1, 1) \<in> set (pendingCommands
      (runC [Connect, TcpConnect, Call (GetGain IN 1) ''a'' 0, Call (GetVU IN 1) ''b'' 0]
         (constructor defaults (\<lambda>i. 0)))) \<and>
   map_of (settled
      (runC [Connect, TcpConnect, Call (GetGain IN 1) ''a'' 0, Call (GetVU IN 1) ''b'' 0]
         (constructor defaults (\<lambda>i. 0)))) 1 = None \<and>
   map_of (settled (handleLine
      (runC [Connect, TcpConnect, Call (GetGain IN 1) ''a'' 0, Call (GetVU IN 1) ''b'' 0]
         (constructor defaults (\<lambda>i. 0))) ''GAIN IN 1 = -10.0'')) 1 =
     Some (Resolved ''GAIN IN 1 = -10.0'')"
proof -
  let ?c = "runC [Connect, TcpConnect, Call (GetGain IN 1) ''a'' 0, Call (GetVU IN 1) ''b'' 0]
         (constructor defaults (\<lambda>i. 0))"
  have t: "trim ''GAIN IN 1 = -10.0'' = ''GAIN IN 1 = -10.0''"
    by (simp add: str_eval)
  have m: "(''b'', 1, 1) \<in> set (pendingCommands ?c)" and u: "map_of (settled ?c) 1 = None"
    by (simp_all add: cl_defs show_nat.simps digit_char_def Let_def)
  from response_resolves_all_pending [of "''GAIN IN 1 = -10.0''" ?c] t m u
  have "map_of (settled (handleLine ?c ''GAIN IN 1 = -10.0'')) 1 =
        Some (Resolved ''GAIN IN 1 = -10.0'')"
    by (metis list.distinct(1))
  with t m u show ?thesis by simp
qed

text \<open>
  C1 as stated fails: with a \<^verbatim>\<open>GET GAIN\<close> and a \<^verbatim>\<open>GET VU\<close> both pending, the
  single response line \<^verbatim>\<open>GAIN IN 1 = -10.0\<close> resolves both promises with the
  same text and leaves nothing pending, where the claim has the second
  command stay pending.
\<close>

theorem one_line_resolves_two_commands:
  "pendingCommands
     (runC [Connect, TcpConnect, Call (GetGain IN 1) ''1700000000000-0.25'' 0,
            Call (GetVU IN 1) ''1700000000001-0.75'' 0] (constructor defaults (\<lambda>i. 0))) =
     [(''1700000000000-0.25'', 0, 0), (''1700000000001-0.75'', 1, 1)] \<and>
   pendingCommands
     (runC [Connect, TcpConnect, Call (GetGain IN 1) ''1700000000000-0.25'' 0,
            Call (GetVU IN 1) ''1700000000001-0.75'' 0,
            TcpData (''GAIN IN 1 = -10.0'' @ [CR, LF])] (constructor defaults (\<lambda>i. 0))) = [] \<and>
   settled
     (runC [Connect, TcpConnect, Call (GetGain IN 1) ''1700000000000-0.25'' 0,
            Call (GetVU IN 1) ''1700000000001-0.75'' 0,
            TcpData (''GAIN IN 1 = -10.0'' @ [CR, LF])] (constructor defaults (\<lambda>i. 0))) =
     [(0, Resolved ''GAIN IN 1 = -10.0''), (1, Resolved ''GAIN IN 1 = -10.0'')]"
  by (simp add: cl_defs show_nat.simps digit_char_def Let_def str_eval re_defs)

text \<open>
  C10. A client constructed with \<open>simulatorMode = true\<close> is connected when the
  constructor returns, before \<open>connect()\<close> is called: \<open>isConnected()\<close> is true and
  the constructor has emitted exactly one event, \<open>connected\<close>.
\<close>
theorem simulator_connected_on_construction:
  "simulatorMode_opt p = Some True \<Longrightarrow>
   isConnected (constructor p rnd) \<and> events (constructor p rnd) = [EvConnected]"
  by (simp add: constructor_def initSimulator_def isConnected_def Let_def emitC_def new_client_def
      merge_config_def)

theorem simulator_connected_on_construction_witness:
  "simulatorMode_opt (defaults\<lparr>simulatorMode_opt := Some True\<rparr>) = Some True \<and>
   isConnected (constructor (defaults\<lparr>simulatorMode_opt := Some True\<rparr>) (\<lambda>i. 1 / 2)) \<and>
   events (constructor (defaults\<lparr>simulatorMode_opt := Some True\<rparr>) (\<lambda>i. 1 / 2)) = [EvConnected]"
  using simulator_connected_on_construction [of "defaults\<lparr>simulatorMode_opt := Some True\<rparr>" "\<lambda>i. 1 / 2"]
  by simp

text \<open>
  C6. The claim fails on the code for small levels. \<open>levelToDb\<close> clamps at level
  \<open>0\<close> and not at the level \<open>0.001\<close> that corresponds to \<open>-60\<close> dB: the level
  \<open>0.0005\<close> is converted to a value between \<open>-67\<close> and \<open>-66\<close> dB, below the floor of
  \<open>-60\<close>, and \<open>dbToLevel\<close> converts that value to the level \<open>0\<close>, not back to
  \<open>0.0005\<close>.
\<close>

theorem small_level_below_floor:
  "- 67 < levelToDb (1 / 2000) \<and> levelToDb (1 / 2000) < - 66 \<and>
   dbToLevel (levelToDb (1 / 2000)) = 0"
proof -
  have l: "levelToDb (1 / 2000) = - (20 * log 10 2000)"
    by (simp add: levelToDb_def log_inv_2000)
  from log_2000 have b: "- 67 < levelToDb (1 / 2000)" "levelToDb (1 / 2000) < - 66"
    unfolding l by simp_all
  then have "levelToDb (1 / 2000) \<le> - 60" by simp
  then have "dbToLevel (levelToDb (1 / 2000)) = 0" by (simp only: dbToLevel_def if_True)
  with b show ?thesis by simp
qed



text \<open>
  C7. The last part of the claim fails on the code. In hardware mode the device
  answers \<^verbatim>\<open>GET GAIN IN 1\<close> with the line \<^verbatim>\<open>Unknown command.\<close>; the promise of
  \<^verbatim>\<open>sendRaw\<close> resolves with that line, its final \<^verbatim>\<open>.\<close> matches \<^verbatim>\<open>([-\d.]+)\s*$\<close>, and
  \<^verbatim>\<open>parseFloat(".")\<close> is \<^verbatim>\<open>NaN\<close>: \<^verbatim>\<open>getGain\<close> returns \<^verbatim>\<open>NaN\<close>, not \<open>-60\<close>.
\<close>
theorem getGain_unparseable_not_default:
  "settled
     (runC [Connect, TcpConnect, Call (GetGain IN 1) ''1700000000000-0.25'' 0,
            TcpData (''Unknown command.'' @ [CR, LF])] (constructor defaults (\<lambda>i. 0))) =
     [(0, Resolved ''Unknown command.'')] \<and>
   numberOf ''Unknown command.'' = NaN"
  by (simp add: cl_defs show_nat.simps digit_char_def Let_def str_eval re_defs numberOf_def)




end
